theory Spec2Isabelle
  imports Main "HOL-Library.Sublist" "HOL-Library.AList" "HOL-Library.Word"
begin

unbundle bit_operations_syntax

section \<open>Python strings\<close>

text \<open>
  The two scripts \<^verbatim>\<open>dropbox_to_github.py\<close> and \<^verbatim>\<open>simple_upload.py\<close> work on Python
  \<^verbatim>\<open>str\<close> values. A \<^typ>\<open>string\<close> stands for such a value with one \<^typ>\<open>char\<close> per code
  point, so \<^const>\<open>length\<close> is Python's \<^verbatim>\<open>len\<close>; the code points are those below 256.
\<close>

text \<open>\<^verbatim>\<open>p in s\<close> for two strings: \<open>p\<close> occurs in \<open>s\<close> as a contiguous piece.\<close>

fun str_in :: "string \<Rightarrow> string \<Rightarrow> bool" where
  "str_in p [] = (p = [])"
| "str_in p (c # cs) = (prefix p (c # cs) \<or> str_in p cs)"

text \<open>
  \<^verbatim>\<open>s.replace(old, new)\<close>: every occurrence of \<open>old\<close>, found from the left and not
  overlapping an earlier one, becomes \<open>new\<close>. For an empty \<open>old\<close> Python puts \<open>new\<close>
  before every character and at the end.
\<close>

function str_replace :: "string \<Rightarrow> string \<Rightarrow> string \<Rightarrow> string" where
  "str_replace old new [] = (if old = [] then new else [])"
| "str_replace old new (c # cs) =
     (if old = [] then new @ c # str_replace old new cs
      else if prefix old (c # cs) then new @ str_replace old new (drop (length old) (c # cs))
      else c # str_replace old new cs)"
  by pat_completeness auto
termination
  by (relation "measure (\<lambda>(old, new, s). length s)") auto

text \<open>\<^verbatim>\<open>s.split(c)[0]\<close> and the rest after the first \<open>c\<close> (\<^verbatim>\<open>s.split(c, 1)[1]\<close>).\<close>

definition before_first :: "char \<Rightarrow> string \<Rightarrow> string" where
  "before_first c s = takeWhile (\<lambda>x. x \<noteq> c) s"

definition after_first :: "char \<Rightarrow> string \<Rightarrow> string" where
  "after_first c s = drop 1 (dropWhile (\<lambda>x. x \<noteq> c) s)"

text \<open>\<^verbatim>\<open>s[s.rfind(c) + 1:]\<close> and \<^verbatim>\<open>s[:s.rfind(c) + 1]\<close>; \<^verbatim>\<open>rfind\<close> is -1 when \<open>c\<close> is absent.\<close>

definition after_last :: "char \<Rightarrow> string \<Rightarrow> string" where
  "after_last c s = rev (takeWhile (\<lambda>x. x \<noteq> c) (rev s))"

definition upto_last :: "char \<Rightarrow> string \<Rightarrow> string" where
  "upto_last c s = rev (dropWhile (\<lambda>x. x \<noteq> c) (rev s))"

definition ascii_upper :: "char \<Rightarrow> bool" where
  "ascii_upper c = (65 \<le> (of_char c :: nat) \<and> (of_char c :: nat) \<le> 90)"

definition ascii_lower :: "char \<Rightarrow> bool" where
  "ascii_lower c = (97 \<le> (of_char c :: nat) \<and> (of_char c :: nat) \<le> 122)"

definition ascii_digit :: "char \<Rightarrow> bool" where
  "ascii_digit c = (48 \<le> (of_char c :: nat) \<and> (of_char c :: nat) \<le> 57)"

definition ascii_alpha :: "char \<Rightarrow> bool" where
  "ascii_alpha c = (ascii_upper c \<or> ascii_lower c)"

definition to_lower :: "char \<Rightarrow> char" where
  "to_lower c = (if ascii_upper c then char_of (of_char c + (32 :: nat)) else c)"

text \<open>\<^verbatim>\<open>s.encode()\<close>: UTF-8, one byte below 128 and two bytes from 128 to 255.\<close>

definition utf8_char :: "char \<Rightarrow> nat list" where
  "utf8_char c =
     (let n = (of_char c :: nat)
      in if n < 128 then [n] else [192 + n div 64, 128 + n mod 64])"

definition encode :: "string \<Rightarrow> nat list" where
  "encode s = concat (map utf8_char s)"

section \<open>The standard library's functions the scripts call\<close>

subsection \<open>\<^verbatim>\<open>urllib.parse.urlparse\<close>\<close>

datatype error =
    ValueError
  | TypeError
  | FileNotFoundError
  | AttributeError
  | RequestException
  | GithubException

record parse_result =
  scheme :: string
  netloc :: string
  path :: string
  params :: string
  query :: string
  fragment :: string

definition scheme_char :: "char \<Rightarrow> bool" where
  "scheme_char c = (ascii_alpha c \<or> ascii_digit c \<or> c \<in> set ''+-.'')"

definition uses_params :: "string list" where
  "uses_params = ['''', ''ftp'', ''hdl'', ''prospero'', ''http'', ''imap'',
                  ''https'', ''shttp'', ''rtsp'', ''rtsps'', ''rtspu'', ''sip'',
                  ''sips'', ''mms'', ''sftp'', ''tel'']"

text \<open>
  \<^verbatim>\<open>url.lstrip(_WHATWG_C0_CONTROL_OR_SPACE)\<close>, then the removal of tab, carriage return
  and line feed.
\<close>

definition clean_url :: "string \<Rightarrow> string" where
  "clean_url url =
     filter (\<lambda>c. c \<notin> {CHR 0x09, CHR 0x0D, CHR 0x0A})
       (dropWhile (\<lambda>c. (of_char c :: nat) \<le> 32) url)"

text \<open>
  The scheme, when the text before the first colon is not empty, starts with an ASCII
  letter and has scheme characters only: the lower-cased scheme and the rest.
\<close>

definition split_scheme :: "string \<Rightarrow> string \<times> string" where
  "split_scheme url =
     (let pre = before_first CHR '':'' url
      in if CHR '':'' \<in> set url \<and> pre \<noteq> [] \<and> ascii_alpha (hd pre) \<and> list_all scheme_char pre
         then (map to_lower pre, after_first CHR '':'' url)
         else ('''', url))"

text \<open>\<^verbatim>\<open>_splitnetloc(url, 2)\<close> when the rest starts with two slashes.\<close>

definition split_netloc :: "string \<Rightarrow> string \<times> string" where
  "split_netloc url =
     (if take 2 url = ''//''
      then (takeWhile (\<lambda>c. c \<notin> set ''/?#'') (drop 2 url),
            dropWhile (\<lambda>c. c \<notin> set ''/?#'') (drop 2 url))
      else ('''', url))"

text \<open>
  \<^verbatim>\<open>_splitparams\<close>: the parameters are what follows the first semicolon of the last
  path segment.
\<close>

definition split_params :: "string \<Rightarrow> string \<times> string" where
  "split_params url =
     (let dir = upto_last CHR ''/'' url; seg = after_last CHR ''/'' url
      in if CHR '';'' \<in> set seg
         then (dir @ before_first CHR '';'' seg, after_first CHR '';'' seg)
         else (url, ''''))"

text \<open>
  \<^verbatim>\<open>urlparse(url)\<close>. \<^verbatim>\<open>urlsplit\<close> raises \<^verbatim>\<open>ValueError\<close> when the network location has
  one square bracket without the other; when it has both, the text between them is
  checked as an IP literal by the \<^verbatim>\<open>ipaddress\<close> module, which the parameter
  \<open>bracketed_host_ok\<close> stands for. The check of the network location under NFKC
  normalisation never fails for code points below 256.
\<close>

definition urlparse :: "(string \<Rightarrow> bool) \<Rightarrow> string \<Rightarrow> error + parse_result" where
  "urlparse bracketed_host_ok url0 =
     (let (sch, url1) = split_scheme (clean_url url0);
          (loc, url2) = split_netloc url1;
          lb = CHR ''['' \<in> set loc;
          rb = CHR '']'' \<in> set loc
      in if (lb \<and> \<not> rb) \<or> (rb \<and> \<not> lb) then Inl ValueError
         else if lb \<and> rb \<and>
                 \<not> bracketed_host_ok (before_first CHR '']'' (after_first CHR ''['' loc))
         then Inl ValueError
         else
           let frag = (if CHR ''#'' \<in> set url2 then after_first CHR ''#'' url2 else '''');
               url3 = before_first CHR ''#'' url2;
               qry = (if CHR ''?'' \<in> set url3 then after_first CHR ''?'' url3 else '''');
               url4 = before_first CHR ''?'' url3;
               (url5, prm) = (if sch \<in> set uses_params \<and> CHR '';'' \<in> set url4
                              then split_params url4 else (url4, ''''))
           in Inr \<lparr>scheme = sch, netloc = loc, path = url5, params = prm,
                    query = qry, fragment = frag\<rparr>)"

text \<open>
  The interpreters released before that check of the bracketed host (CPython up to
  3.11.3) accept every bracketed host.
\<close>

definition unchecked_host :: "string \<Rightarrow> bool" where
  "unchecked_host h = True"

subsection \<open>\<^verbatim>\<open>os.path.basename\<close> and \<^verbatim>\<open>os.path.splitext\<close>\<close>

definition basename :: "string \<Rightarrow> string" where
  "basename p = after_last CHR ''/'' p"

text \<open>
  \<^verbatim>\<open>os.path.splitext(p)[1]\<close>: from the last dot of the last segment on, unless only
  dots come before it in that segment.
\<close>

definition splitext_ext :: "string \<Rightarrow> string" where
  "splitext_ext p =
     (let seg = after_last CHR ''/'' p;
          stem = upto_last CHR ''.'' seg
      in if CHR ''.'' \<in> set seg \<and> (\<exists>c \<in> set (butlast stem). c \<noteq> CHR ''.'')
         then CHR ''.'' # after_last CHR ''.'' seg else '''')"

subsection \<open>\<^verbatim>\<open>urllib.parse.quote\<close>\<close>

definition hex_upper :: "nat \<Rightarrow> char" where
  "hex_upper d = ''0123456789ABCDEF'' ! (d mod 16)"

definition hex_lower :: "nat \<Rightarrow> char" where
  "hex_lower d = ''0123456789abcdef'' ! (d mod 16)"

definition always_safe :: "char \<Rightarrow> bool" where
  "always_safe c = (ascii_alpha c \<or> ascii_digit c \<or> c \<in> set ''_.-~'')"

text \<open>\<^verbatim>\<open>quote(s)\<close> with its default \<^verbatim>\<open>safe='/'\<close>.\<close>

definition quote_char :: "char \<Rightarrow> string" where
  "quote_char c =
     (if always_safe c \<or> c = CHR ''/'' then [c]
      else concat (map (\<lambda>b. [CHR ''%'', hex_upper (b div 16), hex_upper b]) (utf8_char c)))"

definition quote :: "string \<Rightarrow> string" where
  "quote s = concat (map quote_char s)"

subsection \<open>\<^verbatim>\<open>hashlib.md5\<close>\<close>

text \<open>
  The MD5 message digest of RFC 1321 on a list of bytes: four 32-bit registers, 64
  steps for every block of 64 bytes of the padded message.
\<close>

type_synonym u32 = "32 word"

definition md5_shifts :: "nat list" where
  "md5_shifts =
    [7, 12, 17, 22, 7, 12, 17, 22, 7, 12, 17, 22, 7, 12, 17, 22,
     5, 9, 14, 20, 5, 9, 14, 20, 5, 9, 14, 20, 5, 9, 14, 20,
     4, 11, 16, 23, 4, 11, 16, 23, 4, 11, 16, 23, 4, 11, 16, 23,
     6, 10, 15, 21, 6, 10, 15, 21, 6, 10, 15, 21, 6, 10, 15, 21]"

definition md5_sines :: "u32 list" where
  "md5_sines =
    [0xd76aa478, 0xe8c7b756, 0x242070db, 0xc1bdceee,
     0xf57c0faf, 0x4787c62a, 0xa8304613, 0xfd469501,
     0x698098d8, 0x8b44f7af, 0xffff5bb1, 0x895cd7be,
     0x6b901122, 0xfd987193, 0xa679438e, 0x49b40821,
     0xf61e2562, 0xc040b340, 0x265e5a51, 0xe9b6c7aa,
     0xd62f105d, 0x02441453, 0xd8a1e681, 0xe7d3fbc8,
     0x21e1cde6, 0xc33707d6, 0xf4d50d87, 0x455a14ed,
     0xa9e3e905, 0xfcefa3f8, 0x676f02d9, 0x8d2a4c8a,
     0xfffa3942, 0x8771f681, 0x6d9d6122, 0xfde5380c,
     0xa4beea44, 0x4bdecfa9, 0xf6bb4b60, 0xbebfbc70,
     0x289b7ec6, 0xeaa127fa, 0xd4ef3085, 0x04881d05,
     0xd9d4d039, 0xe6db99e5, 0x1fa27cf8, 0xc4ac5665,
     0xf4292244, 0x432aff97, 0xab9423a7, 0xfc93a039,
     0x655b59c3, 0x8f0ccc92, 0xffeff47d, 0x85845dd1,
     0x6fa87e4f, 0xfe2ce6e0, 0xa3014314, 0x4e0811a1,
     0xf7537e82, 0xbd3af235, 0x2ad7d2bb, 0xeb86d391]"

definition rotl32 :: "u32 \<Rightarrow> nat \<Rightarrow> u32" where
  "rotl32 x n = push_bit n x OR drop_bit (32 - n) x"

text \<open>The \<open>k\<close> low bytes of a number, least significant first.\<close>

definition le_bytes :: "nat \<Rightarrow> nat \<Rightarrow> nat list" where
  "le_bytes k n = map (\<lambda>i. n div 256 ^ i mod 256) [0..<k]"

definition le_word :: "nat list \<Rightarrow> u32" where
  "le_word bs = of_nat (foldr (\<lambda>b acc. b + 256 * acc) bs 0)"

definition md5_pad :: "nat list \<Rightarrow> nat list" where
  "md5_pad m =
     m @ [128] @ replicate ((119 - length m mod 64) mod 64) 0 @ le_bytes 8 (8 * length m)"

function chunks :: "nat \<Rightarrow> 'a list \<Rightarrow> 'a list list" where
  "chunks n xs = (if n = 0 \<or> xs = [] then [] else take n xs # chunks n (drop n xs))"
  by pat_completeness auto
termination
  by (relation "measure (\<lambda>(n, xs). length xs)") auto

declare chunks.simps [simp del]

definition md5_step :: "u32 list \<Rightarrow> u32 \<times> u32 \<times> u32 \<times> u32 \<Rightarrow> nat \<Rightarrow> u32 \<times> u32 \<times> u32 \<times> u32" where
  "md5_step M s i =
     (case s of (A, B, C, D) \<Rightarrow>
        let (F, g) =
              (if i < 16 then ((B AND C) OR (NOT B AND D), i)
               else if i < 32 then ((D AND B) OR (NOT D AND C), (5 * i + 1) mod 16)
               else if i < 48 then (B XOR C XOR D, (3 * i + 5) mod 16)
               else (C XOR (B OR NOT D), (7 * i) mod 16));
            F' = F + A + md5_sines ! i + M ! g
        in (D, B + rotl32 F' (md5_shifts ! i), B, C))"

definition md5_block :: "u32 \<times> u32 \<times> u32 \<times> u32 \<Rightarrow> nat list \<Rightarrow> u32 \<times> u32 \<times> u32 \<times> u32" where
  "md5_block s blk =
     (case s of (a0, b0, c0, d0) \<Rightarrow>
        case fold (\<lambda>i t. md5_step (map le_word (chunks 4 blk)) t i) [0..<64] s of
          (A, B, C, D) \<Rightarrow> (a0 + A, b0 + B, c0 + C, d0 + D))"

definition md5_digest :: "nat list \<Rightarrow> nat list" where
  "md5_digest m =
     (case fold (\<lambda>blk s. md5_block s blk) (chunks 64 (md5_pad m))
             (0x67452301, 0xefcdab89, 0x98badcfe, 0x10325476) of
        (a, b, c, d) \<Rightarrow> concat (map (\<lambda>w. le_bytes 4 (unat w)) [a, b, c, d]))"

text \<open>\<^verbatim>\<open>hashlib.md5(s.encode()).hexdigest()\<close>.\<close>

definition md5_hexdigest :: "string \<Rightarrow> string" where
  "md5_hexdigest s =
     concat (map (\<lambda>b. [hex_lower (b div 16), hex_lower b]) (md5_digest (encode s)))"

subsection \<open>\<^verbatim>\<open>base64.b64encode\<close> and decimal numbers\<close>

definition b64_char :: "nat \<Rightarrow> char" where
  "b64_char n =
     ''ABCDEFGHIJKLMNOPQRSTUVWXYZabcdefghijklmnopqrstuvwxyz0123456789+/'' ! (n mod 64)"

fun b64_groups :: "nat list \<Rightarrow> string" where
  "b64_groups [] = []"
| "b64_groups [a] = [b64_char (a div 4), b64_char (a mod 4 * 16), CHR ''='', CHR ''='']"
| "b64_groups [a, b] =
     [b64_char (a div 4), b64_char (a mod 4 * 16 + b div 16), b64_char (b mod 16 * 4), CHR ''='']"
| "b64_groups (a # b # c # r) =
     [b64_char (a div 4), b64_char (a mod 4 * 16 + b div 16),
      b64_char (b mod 16 * 4 + c div 64), b64_char (c mod 64)] @ b64_groups r"

text \<open>A \<^verbatim>\<open>bytes\<close> value is a \<^typ>\<open>string\<close> with one \<^typ>\<open>char\<close> per byte.\<close>

type_synonym bytes = string

definition b64encode :: "bytes \<Rightarrow> string" where
  "b64encode bs = b64_groups (map of_char bs)"

text \<open>\<^verbatim>\<open>str(n)\<close> for a number that is not negative, as an f-string prints it.\<close>

function show_nat :: "nat \<Rightarrow> string" where
  "show_nat n =
     (if n < 10 then [''0123456789'' ! n]
      else show_nat (n div 10) @ [''0123456789'' ! (n mod 10)])"
  by pat_completeness auto
termination
  by (relation "measure id") auto

declare show_nat.simps [simp del]

section \<open>URL normalizer\<close>

text \<open>
  The three functions of this section are the same, line for line, in
  \<^verbatim>\<open>dropbox_to_github.py\<close> and \<^verbatim>\<open>simple_upload.py\<close>.

  \<^verbatim>\<open>
  def get_download_url(url):
      if 'dropbox.com' in url and 'dl=0' in url:
          return url.replace('dl=0', 'dl=1')
      return url
  \<close>
\<close>

definition get_download_url :: "string \<Rightarrow> string" where
  "get_download_url url =
     (if str_in ''dropbox.com'' url \<and> str_in ''dl=0'' url
      then str_replace ''dl=0'' ''dl=1'' url
      else url)"

text \<open>
  \<^verbatim>\<open>
  def get_safe_filename(url):
      parsed_url = urlparse(url)
      path = parsed_url.path
      filename = os.path.basename(path).split('?')[0]
      if len(filename) > 100 or '?' in filename or '&' in filename:
          hash_object = hashlib.md5(url.encode())
          file_ext = os.path.splitext(filename)[1] or '.jpg'
          filename = hash_object.hexdigest() + file_ext
      return filename
  \<close>
  The \<^verbatim>\<open>ValueError\<close> of \<^verbatim>\<open>urlparse\<close> leaves the function as an exception.
\<close>

definition get_safe_filename :: "(string \<Rightarrow> bool) \<Rightarrow> string \<Rightarrow> error + string" where
  "get_safe_filename bracketed_host_ok url =
     (case urlparse bracketed_host_ok url of
        Inl e \<Rightarrow> Inl e
      | Inr parsed_url \<Rightarrow>
          let filename = before_first CHR ''?'' (basename (path parsed_url))
          in if length filename > 100 \<or> str_in ''?'' filename \<or> str_in ''&'' filename
             then
               let file_ext = (if splitext_ext filename = '''' then ''.jpg''
                               else splitext_ext filename)
               in Inr (md5_hexdigest url @ file_ext)
             else Inr filename)"

section \<open>The world outside the scripts\<close>

text \<open>
  The scripts talk to two services: the host the images are downloaded from, and the
  contents interface of the GitHub repository. The environment fixes what these answer;
  the state records what the scripts did to them. Every network request takes one tick
  of \<open>clock\<close>, and the environment's answer may depend on it.
\<close>

text \<open>
  The outcome of \<^verbatim>\<open>requests.get\<close>: the final response, with its status and body, or
  an exception (a timeout, a connection error, too many redirects).
\<close>

datatype http_outcome =
    Response nat bytes
  | Transport_failure

record request =
  req_url :: string
  req_stream :: bool
  req_timeout :: nat

text \<open>
  What may go wrong with a request to the repository: it cannot be carried out
  (\<open>Unreachable\<close>), or it is answered with an error status and changes nothing
  (\<open>Refused\<close>: bad credentials, a rate limit, a server error); the model takes 500 for
  that status, which the scripts tell from success only.
\<close>

datatype fault = Healthy | Unreachable | Refused

datatype cell = Str string | Missing

text \<open>
  A delimited text file as \<^verbatim>\<open>csv\<close> reads it: the header row (none in an empty file)
  and the rows after it that are not blank.
\<close>

record csv_table =
  header :: "string list option"
  records :: "string list list"

text \<open>A \<^verbatim>\<open>pandas\<close> data frame: column labels and rows of as many cells.\<close>

record dataframe =
  columns :: "string list"
  frame_rows :: "cell list list"

record env =
  bracketed_host_ok :: "string \<Rightarrow> bool"
  http_get :: "nat \<Rightarrow> request \<Rightarrow> http_outcome"
  api_fault :: "nat \<Rightarrow> fault"
  owner_login :: string
  repo_name :: string
  csv_files :: "string \<Rightarrow> csv_table option"
  read_csv :: "string \<Rightarrow> error + dataframe"

datatype change = Created | Updated

record blob =
  content :: string
  sha :: nat

record commit =
  change :: change
  commit_path :: string
  message :: string

text \<open>
  The repository's target branch is a store from paths to objects, kept as an
  association list in the order of creation. \<open>content\<close> is the content argument the
  script hands over, \<open>sha\<close> the revision marker the store gave the object.
\<close>

record world =
  clock :: nat
  requests :: "request list"
  files :: "(string \<times> blob) list"
  commits :: "commit list"
  gh_pages :: bool
  slept :: nat

definition tick :: "world \<Rightarrow> world" where
  "tick w = w\<lparr>clock := Suc (clock w)\<rparr>"

subsection \<open>The contents interface of the repository\<close>

record api_response =
  status_code :: nat
  json_sha :: "nat option"

text \<open>
  \<^verbatim>\<open>GET /repos/{repo}/contents/{path}\<close>: 200 and the object's \<open>sha\<close> when the path
  exists, 404 when it does not.
\<close>

definition api_get :: "env \<Rightarrow> world \<Rightarrow> string \<Rightarrow> (error + api_response) \<times> world" where
  "api_get e w p =
     (case api_fault e (clock w) of
        Unreachable \<Rightarrow> (Inl RequestException, tick w)
      | Refused \<Rightarrow> (Inr \<lparr>status_code = 500, json_sha = None\<rparr>, tick w)
      | Healthy \<Rightarrow>
          (case map_of (files w) p of
             None \<Rightarrow> (Inr \<lparr>status_code = 404, json_sha = None\<rparr>, tick w)
           | Some b \<Rightarrow> (Inr \<lparr>status_code = 200, json_sha = Some (sha b)\<rparr>, tick w)))"

definition write_blob :: "change \<Rightarrow> string \<Rightarrow> string \<Rightarrow> string \<Rightarrow> world \<Rightarrow> world" where
  "write_blob ch p msg c w =
     w\<lparr>files := AList.update p \<lparr>content = c, sha = Suc (length (commits w))\<rparr> (files w),
       commits := commits w @ [\<lparr>change = ch, commit_path = p, message = msg\<rparr>]\<rparr>"

text \<open>
  \<^verbatim>\<open>PUT /repos/{repo}/contents/{path}\<close>: without a \<open>sha\<close> it creates the object (201)
  and is refused when the path exists (422); with the \<open>sha\<close> of the existing object it
  replaces it (200) and is refused when the \<open>sha\<close> is not the current one (409).
\<close>

definition api_put ::
  "env \<Rightarrow> world \<Rightarrow> string \<Rightarrow> string \<Rightarrow> string \<Rightarrow> nat option \<Rightarrow> (error + api_response) \<times> world" where
  "api_put e w p msg c sha_opt =
     (case api_fault e (clock w) of
        Unreachable \<Rightarrow> (Inl RequestException, tick w)
      | Refused \<Rightarrow> (Inr \<lparr>status_code = 500, json_sha = None\<rparr>, tick w)
      | Healthy \<Rightarrow>
          (case (map_of (files w) p, sha_opt) of
             (None, None) \<Rightarrow>
               (Inr \<lparr>status_code = 201, json_sha = Some (Suc (length (commits w)))\<rparr>,
                tick (write_blob Created p msg c w))
           | (None, Some s) \<Rightarrow> (Inr \<lparr>status_code = 422, json_sha = None\<rparr>, tick w)
           | (Some b, None) \<Rightarrow> (Inr \<lparr>status_code = 422, json_sha = None\<rparr>, tick w)
           | (Some b, Some s) \<Rightarrow>
               if s = sha b
               then (Inr \<lparr>status_code = 200, json_sha = Some (Suc (length (commits w)))\<rparr>,
                     tick (write_blob Updated p msg c w))
               else (Inr \<lparr>status_code = 409, json_sha = None\<rparr>, tick w)))"

text \<open>
  The \<^verbatim>\<open>PyGithub\<close> calls of \<^verbatim>\<open>dropbox_to_github.py\<close> on that interface: a request that
  cannot be sent or is not answered with success raises.
\<close>

definition get_contents :: "env \<Rightarrow> world \<Rightarrow> string \<Rightarrow> (error + nat) \<times> world" where
  "get_contents e w p =
     (case api_get e w p of
        (Inl x, w') \<Rightarrow> (Inl GithubException, w')
      | (Inr r, w') \<Rightarrow>
          (case json_sha r of
             Some s \<Rightarrow> if status_code r = 200 then (Inr s, w') else (Inl GithubException, w')
           | None \<Rightarrow> (Inl GithubException, w')))"

definition update_file ::
  "env \<Rightarrow> world \<Rightarrow> string \<Rightarrow> string \<Rightarrow> string \<Rightarrow> nat \<Rightarrow> (error + unit) \<times> world" where
  "update_file e w p msg c s =
     (case api_put e w p msg c (Some s) of
        (Inl x, w') \<Rightarrow> (Inl GithubException, w')
      | (Inr r, w') \<Rightarrow>
          if status_code r \<in> {200, 201} then (Inr (), w') else (Inl GithubException, w'))"

definition create_file ::
  "env \<Rightarrow> world \<Rightarrow> string \<Rightarrow> string \<Rightarrow> string \<Rightarrow> (error + unit) \<times> world" where
  "create_file e w p msg c =
     (case api_put e w p msg c None of
        (Inl x, w') \<Rightarrow> (Inl GithubException, w')
      | (Inr r, w') \<Rightarrow>
          if status_code r \<in> {200, 201} then (Inr (), w') else (Inl GithubException, w'))"

section \<open>Blob fetcher\<close>

text \<open>
  \<^verbatim>\<open>
  def download_image(url):
      try:
          download_url = get_download_url(url)
          response = requests.get(download_url, stream=True, timeout=30)
          response.raise_for_status()
          return response.content
      except Exception as e:
          print(f"Error downloading {url}: {str(e)}")
          return None
  \<close>
  \<^verbatim>\<open>requests.get\<close> raises when the request times out or cannot be carried out, and
  \<^verbatim>\<open>raise_for_status\<close> raises for a status from 400 to 599. The messages the scripts
  print are left out of the model, the usage line of the entry point apart.
\<close>

definition download_image :: "env \<Rightarrow> world \<Rightarrow> string \<Rightarrow> bytes option \<times> world" where
  "download_image e w url =
     (let download_url = get_download_url url;
          rq = \<lparr>req_url = download_url, req_stream = True, req_timeout = 30\<rparr>;
          w' = tick (w\<lparr>requests := requests w @ [rq]\<rparr>)
      in case http_get e (clock w) rq of
           Transport_failure \<Rightarrow> (None, w')
         | Response st body \<Rightarrow>
             if 400 \<le> st \<and> st < 600 then (None, w') else (Some body, w'))"

section \<open>Asset publisher\<close>

text \<open>
  \<^verbatim>\<open>upload_to_github(url, batch_index)\<close> of \<^verbatim>\<open>dropbox_to_github.py\<close>. Every exception
  inside ends in \<^verbatim>\<open>return url, None\<close>; an exception of \<^verbatim>\<open>get_contents\<close> or
  \<^verbatim>\<open>update_file\<close> is answered with \<^verbatim>\<open>create_file\<close>.
\<close>

definition pages_url :: "string \<Rightarrow> string \<Rightarrow> string \<Rightarrow> string" where
  "pages_url owner name escaped_name =
     ''https://'' @ owner @ ''.github.io/'' @ name @ ''/images/'' @ escaped_name"

definition upload_to_github ::
  "env \<Rightarrow> world \<Rightarrow> string \<Rightarrow> nat \<Rightarrow> (string \<times> string option) \<times> world" where
  "upload_to_github e w url batch_index =
     (case get_safe_filename (bracketed_host_ok e) url of
        Inl x \<Rightarrow> ((url, None), w)
      | Inr filename \<Rightarrow>
          let p = ''images/'' @ filename
          in case download_image e w url of
               (None, w1) \<Rightarrow> ((url, None), w1)
             | (Some image_data, w1) \<Rightarrow>
                 if image_data = [] then ((url, None), w1)
                 else
                   let c = b64encode image_data;
                       commit_message =
                         ''Add image '' @ filename @ '' [batch '' @ show_nat batch_index @ '']'';
                       (r, w2) =
                         (case get_contents e w1 p of
                            (Inr s, wa) \<Rightarrow>
                              (case update_file e wa p commit_message c s of
                                 (Inr u, wb) \<Rightarrow> (Inr u, wb)
                               | (Inl x, wb) \<Rightarrow> create_file e wb p commit_message c)
                          | (Inl x, wa) \<Rightarrow> create_file e wa p commit_message c)
                   in case r of
                        Inl x \<Rightarrow> ((url, None), w2)
                      | Inr u \<Rightarrow>
                          ((url, Some (pages_url (owner_login e) (repo_name e) (quote filename))),
                           w2))"

text \<open>
  \<^verbatim>\<open>upload_to_github(url)\<close> of \<^verbatim>\<open>simple_upload.py\<close>, on the REST interface itself:
  \<^verbatim>\<open>GITHUB_USER\<close> and \<^verbatim>\<open>GITHUB_REPO_NAME\<close> are the two halves of \<^verbatim>\<open>GITHUB_REPO\<close>.
\<close>

definition GITHUB_USER :: string where
  "GITHUB_USER = ''alex-halloran''"

definition GITHUB_REPO_NAME :: string where
  "GITHUB_REPO_NAME = ''shopify-product-images''"

definition simple_upload_to_github ::
  "env \<Rightarrow> world \<Rightarrow> string \<Rightarrow> (string \<times> string option) \<times> world" where
  "simple_upload_to_github e w url =
     (case get_safe_filename (bracketed_host_ok e) url of
        Inl x \<Rightarrow> ((url, None), w)
      | Inr filename \<Rightarrow>
          let p = ''images/'' @ filename
          in case download_image e w url of
               (None, w1) \<Rightarrow> ((url, None), w1)
             | (Some image_data, w1) \<Rightarrow>
                 if image_data = [] then ((url, None), w1)
                 else
                   (case api_get e w1 p of
                      (Inl x, w2) \<Rightarrow> ((url, None), w2)
                    | (Inr response, w2) \<Rightarrow>
                        let content_b64 = b64encode image_data;
                            msg = ''Add image '' @ filename;
                            sha_opt = (if status_code response = 200 then json_sha response
                                       else None)
                        in case api_put e w2 p msg content_b64 sha_opt of
                             (Inl x, w3) \<Rightarrow> ((url, None), w3)
                           | (Inr response', w3) \<Rightarrow>
                               if status_code response' \<in> {200, 201}
                               then ((url, Some (pages_url GITHUB_USER GITHUB_REPO_NAME filename)),
                                     w3)
                               else ((url, None), w3)))"

section \<open>Batch orchestrator and table rewriter\<close>

text \<open>
  \<^verbatim>\<open>list(set(xs))\<close>: the elements of \<open>xs\<close>, each once. Python does not fix the order;
  the model takes the one of \<^const>\<open>remdups\<close>.
\<close>

definition list_of_set :: "string list \<Rightarrow> string list" where
  "list_of_set xs = remdups xs"

text \<open>What a run writes: the rewritten table and the table of the mappings.\<close>

record tables =
  output_csv :: string
  out_header :: "string list"
  out_rows :: "string list list"
  mappings_rows :: "(string \<times> string) list"

text \<open>\<^verbatim>\<open>os.path.splitext(p)[0]\<close>.\<close>

definition splitext_root :: "string \<Rightarrow> string" where
  "splitext_root p = take (length p - length (splitext_ext p)) p"

text \<open>
  \<^verbatim>\<open>if github_url: url_mappings[original_url] = github_url\<close>. The dictionary keeps the
  order of insertion, as the association list does.
\<close>

definition record_mapping ::
  "string \<times> string option \<Rightarrow> (string \<times> string) list \<Rightarrow> (string \<times> string) list" where
  "record_mapping r url_mappings =
     (case r of
        (original_url, Some github_url) \<Rightarrow>
          if github_url \<noteq> [] then AList.update original_url github_url url_mappings
          else url_mappings
      | (original_url, None) \<Rightarrow> url_mappings)"

text \<open>\<^verbatim>\<open>time.sleep(10)\<close> after every batch but the last.\<close>

definition pause :: "nat \<Rightarrow> nat \<Rightarrow> world \<Rightarrow> world" where
  "pause batch_index n_batches w =
     (if batch_index < n_batches - 1 then w\<lparr>slept := slept w + 10\<rparr> else w)"

subsection \<open>\<^verbatim>\<open>process_csv\<close> of \<^verbatim>\<open>simple_upload.py\<close>\<close>

definition simple_BATCH_SIZE :: nat where
  "simple_BATCH_SIZE = 10"

text \<open>
  A row of \<^verbatim>\<open>csv.DictReader\<close>: the cells under the field names, \<^verbatim>\<open>None\<close> under the
  names a short row leaves without a cell. A later field of the same name wins.
\<close>

definition dict_row :: "string list \<Rightarrow> string list \<Rightarrow> (string \<rightharpoonup> cell)" where
  "dict_row fs r =
     map_of (rev (zip fs (map Str r @ replicate (length fs - length r) Missing)))"

text \<open>
  \<^verbatim>\<open>if c in row and row[c] and 'dropbox.com' in row[c]: dropbox_urls.add(row[c])\<close>
\<close>

definition simple_candidate :: "(string \<rightharpoonup> cell) \<Rightarrow> string \<Rightarrow> string list" where
  "simple_candidate row c =
     (case row c of
        Some (Str v) \<Rightarrow> if v \<noteq> [] \<and> str_in ''dropbox.com'' v then [v] else []
      | Some Missing \<Rightarrow> []
      | None \<Rightarrow> [])"

definition simple_collect :: "csv_table \<Rightarrow> string list" where
  "simple_collect t =
     (case header t of
        None \<Rightarrow> []
      | Some fs \<Rightarrow>
          list_of_set
            (concat (map (\<lambda>r. simple_candidate (dict_row fs r) ''Image Src'' @
                              simple_candidate (dict_row fs r) ''Variant Image'')
                         (records t))))"

text \<open>The loop over one batch, and the loop over the batches.\<close>

fun simple_batch ::
  "env \<Rightarrow> string list \<Rightarrow> world \<times> (string \<times> string) list \<times> string list \<Rightarrow>
   world \<times> (string \<times> string) list \<times> string list" where
  "simple_batch e [] st = st"
| "simple_batch e (url # batch) (w, url_mappings, attempts) =
     (case simple_upload_to_github e w url of
        (r, w') \<Rightarrow> simple_batch e batch (w', record_mapping r url_mappings, attempts @ [url]))"

fun simple_batches ::
  "env \<Rightarrow> nat \<Rightarrow> nat \<Rightarrow> string list list \<Rightarrow> world \<times> (string \<times> string) list \<times> string list \<Rightarrow>
   world \<times> (string \<times> string) list \<times> string list" where
  "simple_batches e batch_index n [] st = st"
| "simple_batches e batch_index n (batch # rest) st =
     (case simple_batch e batch st of
        (w, url_mappings, attempts) \<Rightarrow>
          simple_batches e (Suc batch_index) n rest
            (pause batch_index n w, url_mappings, attempts))"

text \<open>
  \<^verbatim>\<open>
  if 'Image Src' in row and row['Image Src'] in url_mappings:
      row['GitHub_Image_Src'] = url_mappings[row['Image Src']]
  else:
      row['GitHub_Image_Src'] = ''
  \<close>
\<close>

definition simple_lookup :: "(string \<times> string) list \<Rightarrow> (string \<rightharpoonup> cell) \<Rightarrow> string \<Rightarrow> string" where
  "simple_lookup url_mappings row c =
     (case row c of
        Some (Str v) \<Rightarrow> (case map_of url_mappings v of Some g \<Rightarrow> g | None \<Rightarrow> '''')
      | Some Missing \<Rightarrow> ''''
      | None \<Rightarrow> '''')"

text \<open>\<^verbatim>\<open>csv.DictWriter.writerow\<close> writes the values under the field names, \<^verbatim>\<open>None\<close> as nothing.\<close>

definition write_row :: "string list \<Rightarrow> (string \<rightharpoonup> cell) \<Rightarrow> string list" where
  "write_row fs row =
     map (\<lambda>k. case row k of Some (Str s) \<Rightarrow> s | Some Missing \<Rightarrow> '''' | None \<Rightarrow> '''') fs"

definition simple_rewrite_row ::
  "(string \<times> string) list \<Rightarrow> string list \<Rightarrow> string list \<Rightarrow> string list" where
  "simple_rewrite_row url_mappings fs r =
     (let row = dict_row fs r;
          row1 = row(''GitHub_Image_Src'' \<mapsto> Str (simple_lookup url_mappings row ''Image Src''));
          row2 = row1(''GitHub_Variant_Image'' \<mapsto>
                        Str (simple_lookup url_mappings row1 ''Variant Image''))
      in write_row (fs @ [''GitHub_Image_Src'', ''GitHub_Variant_Image'']) row2)"

text \<open>
  \<^verbatim>\<open>process_csv(csv_file)\<close>. It raises when the file is missing, when the file is empty
  (\<^verbatim>\<open>reader.fieldnames\<close> is \<^verbatim>\<open>None\<close>, which has no \<^verbatim>\<open>+\<close>), and when a row has more
  cells than the header (the writer refuses the key \<^verbatim>\<open>None\<close> of that row).
\<close>

definition simple_process_csv ::
  "env \<Rightarrow> world \<Rightarrow> string \<Rightarrow> (error + tables) \<times> world \<times> string list" where
  "simple_process_csv e w csv_file =
     (case csv_files e csv_file of
        None \<Rightarrow> (Inl FileNotFoundError, w, [])
      | Some t \<Rightarrow>
          let dropbox_urls = simple_collect t;
              n = (length dropbox_urls + simple_BATCH_SIZE - 1) div simple_BATCH_SIZE
          in case simple_batches e 0 n (chunks simple_BATCH_SIZE dropbox_urls) (w, [], []) of
               (w', url_mappings, attempts) \<Rightarrow>
                 (case header t of
                    None \<Rightarrow> (Inl TypeError, w', attempts)
                  | Some fs \<Rightarrow>
                      if list_ex (\<lambda>r. length fs < length r) (records t)
                      then (Inl ValueError, w', attempts)
                      else
                        (Inr \<lparr>output_csv = splitext_root csv_file @ ''_with_github_urls.csv'',
                              out_header = fs @ [''GitHub_Image_Src'', ''GitHub_Variant_Image''],
                              out_rows = map (simple_rewrite_row url_mappings fs) (records t),
                              mappings_rows = url_mappings\<rparr>,
                         w', attempts)))"

subsection \<open>\<^verbatim>\<open>process_csv\<close> of \<^verbatim>\<open>dropbox_to_github.py\<close>\<close>

definition BATCH_SIZE :: nat where
  "BATCH_SIZE = 50"

definition cell_at :: "cell list \<Rightarrow> nat \<Rightarrow> cell" where
  "cell_at r i = (if i < length r then r ! i else Missing)"

text \<open>\<^verbatim>\<open>df[c]\<close> for a label \<open>c\<close> of the frame.\<close>

definition column :: "dataframe \<Rightarrow> string \<Rightarrow> cell list" where
  "column df c =
     map (\<lambda>r. cell_at r (length (takeWhile (\<lambda>x. x \<noteq> c) (columns df)))) (frame_rows df)"

text \<open>
  \<^verbatim>\<open>Series.str.contains('dropbox.com', na=False)\<close> reads its pattern as a regular
  expression: the dot stands for any character but a line feed.
\<close>

definition re_dropbox_here :: "string \<Rightarrow> bool" where
  "re_dropbox_here s =
     (prefix ''dropbox'' s \<and>
      (case drop 7 s of [] \<Rightarrow> False | x # r \<Rightarrow> x \<noteq> CHR 0x0A \<and> prefix ''com'' r))"

fun re_dropbox :: "string \<Rightarrow> bool" where
  "re_dropbox [] = False"
| "re_dropbox (c # cs) = (re_dropbox_here (c # cs) \<or> re_dropbox cs)"

text \<open>\<^verbatim>\<open>Series.unique()\<close>: every value once, in the order of first appearance.\<close>

definition unique :: "string list \<Rightarrow> string list" where
  "unique xs = rev (remdups (rev xs))"

text \<open>
  \<^verbatim>\<open>
  if c in df.columns:
      dropbox_urls.extend(df.loc[df[c].str.contains('dropbox.com', na=False), c].unique())
  \<close>
  A column of a frame with rows that has no string in it is not of strings, and its
  \<^verbatim>\<open>.str\<close> raises \<^verbatim>\<open>AttributeError\<close>.
\<close>

definition candidates :: "dataframe \<Rightarrow> string \<Rightarrow> error + string list" where
  "candidates df c =
     (if c \<notin> set (columns df) then Inr []
      else if column df c \<noteq> [] \<and> list_all (\<lambda>x. x = Missing) (column df c)
      then Inl AttributeError
      else Inr (unique (concat (map (\<lambda>x. case x of Str v \<Rightarrow> if re_dropbox v then [v] else []
                                          | Missing \<Rightarrow> [])
                                    (column df c)))))"

text \<open>
  The workers of a batch are modelled one after the other, in the order of submission.
\<close>

fun batch_loop ::
  "env \<Rightarrow> nat \<Rightarrow> string list \<Rightarrow> world \<times> (string \<times> string) list \<times> string list \<Rightarrow>
   world \<times> (string \<times> string) list \<times> string list" where
  "batch_loop e batch_index [] st = st"
| "batch_loop e batch_index (url # batch) (w, url_mappings, attempts) =
     (case upload_to_github e w url batch_index of
        (r, w') \<Rightarrow>
          batch_loop e batch_index batch (w', record_mapping r url_mappings, attempts @ [url]))"

fun batches_loop ::
  "env \<Rightarrow> nat \<Rightarrow> nat \<Rightarrow> string list list \<Rightarrow> world \<times> (string \<times> string) list \<times> string list \<Rightarrow>
   world \<times> (string \<times> string) list \<times> string list" where
  "batches_loop e batch_index n [] st = st"
| "batches_loop e batch_index n (batch # rest) st =
     (case batch_loop e batch_index batch st of
        (w, url_mappings, attempts) \<Rightarrow>
          batches_loop e (Suc batch_index) n rest
            (pause batch_index n w, url_mappings, attempts))"

text \<open>\<^verbatim>\<open>df[name] = df[c].map(lambda x: url_mappings.get(x, x))\<close>\<close>

definition mapped_cell :: "(string \<times> string) list \<Rightarrow> cell \<Rightarrow> cell" where
  "mapped_cell url_mappings x =
     (case x of
        Str v \<Rightarrow> (case map_of url_mappings v of Some g \<Rightarrow> Str g | None \<Rightarrow> Str v)
      | Missing \<Rightarrow> Missing)"

definition set_column :: "dataframe \<Rightarrow> string \<Rightarrow> cell list \<Rightarrow> dataframe" where
  "set_column df name vals =
     (if name \<in> set (columns df)
      then df\<lparr>frame_rows :=
                map (\<lambda>(r, v). r[length (takeWhile (\<lambda>x. x \<noteq> name) (columns df)) := v])
                    (zip (frame_rows df) vals)\<rparr>
      else df\<lparr>columns := columns df @ [name],
              frame_rows := map (\<lambda>(r, v). r @ [v]) (zip (frame_rows df) vals)\<rparr>)"

definition rewrite_frame :: "(string \<times> string) list \<Rightarrow> dataframe \<Rightarrow> dataframe" where
  "rewrite_frame url_mappings df =
     (let df1 = (if ''Image Src'' \<in> set (columns df)
                 then set_column df ''GitHub_Image_Src''
                        (map (mapped_cell url_mappings) (column df ''Image Src''))
                 else df)
      in if ''Variant Image'' \<in> set (columns df1)
         then set_column df1 ''GitHub_Variant_Image''
                (map (mapped_cell url_mappings) (column df1 ''Variant Image''))
         else df1)"

text \<open>\<^verbatim>\<open>df.to_csv\<close> writes a missing value as nothing.\<close>

definition to_csv_row :: "cell list \<Rightarrow> string list" where
  "to_csv_row r = map (\<lambda>x. case x of Str s \<Rightarrow> s | Missing \<Rightarrow> '''') r"

text \<open>
  \<^verbatim>\<open>process_csv(csv_file)\<close>. Its last part copies the images to the \<^verbatim>\<open>gh-pages\<close>
  branch inside a \<^verbatim>\<open>try\<close> that catches every exception; it changes neither the tables
  nor the target branch and is left out.
\<close>

definition process_csv ::
  "env \<Rightarrow> world \<Rightarrow> string \<Rightarrow> (error + tables) \<times> world \<times> string list" where
  "process_csv e w csv_file =
     (case read_csv e csv_file of
        Inl x \<Rightarrow> (Inl x, w, [])
      | Inr df \<Rightarrow>
          (case candidates df ''Image Src'' of
             Inl x \<Rightarrow> (Inl x, w, [])
           | Inr a \<Rightarrow>
               (case candidates df ''Variant Image'' of
                  Inl x \<Rightarrow> (Inl x, w, [])
                | Inr b \<Rightarrow>
                    let dropbox_urls = list_of_set (a @ b);
                        n = (length dropbox_urls + BATCH_SIZE - 1) div BATCH_SIZE
                    in case batches_loop e 0 n (chunks BATCH_SIZE dropbox_urls) (w, [], []) of
                         (w', url_mappings, attempts) \<Rightarrow>
                           let df' = rewrite_frame url_mappings df
                           in (Inr \<lparr>output_csv =
                                      splitext_root csv_file @ ''_with_github_urls.csv'',
                                    out_header = columns df',
                                    out_rows = map to_csv_row (frame_rows df'),
                                    mappings_rows = url_mappings\<rparr>,
                               w', attempts))))"

section \<open>Entry points\<close>

datatype ending = Exit nat | Uncaught error

text \<open>The exit status of the process: an exception nobody catches ends it with 1.\<close>

definition exit_status :: "ending \<Rightarrow> nat" where
  "exit_status x = (case x of Exit n \<Rightarrow> n | Uncaught err \<Rightarrow> 1)"

record run =
  ending :: ending
  stdout :: "string list"
  written :: "tables option"

text \<open>
  \<^verbatim>\<open>
  if __name__ == "__main__":
      if len(sys.argv) != 2:
          print("Usage: python simple_upload.py your_shopify_import.csv")
          sys.exit(1)
      csv_file = sys.argv[1]
      process_csv(csv_file)
  \<close>
\<close>

definition simple_main :: "env \<Rightarrow> world \<Rightarrow> string list \<Rightarrow> run \<times> world \<times> string list" where
  "simple_main e w argv =
     (if length argv \<noteq> 2
      then (\<lparr>ending = Exit 1,
             stdout = [''Usage: python simple_upload.py your_shopify_import.csv''],
             written = None\<rparr>, w, [])
      else
        (case simple_process_csv e w (argv ! 1) of
           (Inl x, w', attempts) \<Rightarrow>
             (\<lparr>ending = Uncaught x, stdout = [], written = None\<rparr>, w', attempts)
         | (Inr out, w', attempts) \<Rightarrow>
             (\<lparr>ending = Exit 0, stdout = [], written = Some out\<rparr>, w', attempts)))"

text \<open>
  \<^verbatim>\<open>dropbox_to_github.py\<close> runs its lines 31 to 57 before the entry point: it asks for
  the repository, creates \<^verbatim>\<open>images/.gitkeep\<close> when it cannot list \<^verbatim>\<open>images\<close>, and
  creates the \<^verbatim>\<open>gh-pages\<close> branch when it cannot get it. The first call and the calls
  in the two \<^verbatim>\<open>except\<close> blocks are not guarded.
\<close>

definition api_call :: "env \<Rightarrow> world \<Rightarrow> fault \<times> world" where
  "api_call e w = (api_fault e (clock w), tick w)"

definition module_init :: "env \<Rightarrow> world \<Rightarrow> (error + unit) \<times> world" where
  "module_init e w =
     (case api_call e w of
        (Unreachable, w1) \<Rightarrow> (Inl GithubException, w1)
      | (Refused, w1) \<Rightarrow> (Inl GithubException, w1)
      | (Healthy, w1) \<Rightarrow>
          (case
             (case api_call e w1 of
                (Healthy, w2) \<Rightarrow>
                  if list_ex (\<lambda>(p, b). prefix ''images/'' p) (files w2) then (Inr (), w2)
                  else create_file e w2 ''images/.gitkeep'' ''Create images directory'' ''''
              | (Unreachable, w2) \<Rightarrow>
                  create_file e w2 ''images/.gitkeep'' ''Create images directory'' ''''
              | (Refused, w2) \<Rightarrow>
                  create_file e w2 ''images/.gitkeep'' ''Create images directory'' '''')
           of
             (Inl x, w3) \<Rightarrow> (Inl x, w3)
           | (Inr u, w3) \<Rightarrow>
               (case api_call e w3 of
                  (f, w4) \<Rightarrow>
                    if f = Healthy \<and> gh_pages w4 then (Inr (), w4)
                    else
                      (case api_call e w4 of
                         (Unreachable, w5) \<Rightarrow> (Inl GithubException, w5)
                       | (Refused, w5) \<Rightarrow> (Inl GithubException, w5)
                       | (Healthy, w5) \<Rightarrow>
                           (case api_call e w5 of
                              (Unreachable, w6) \<Rightarrow> (Inl GithubException, w6)
                            | (Refused, w6) \<Rightarrow> (Inl GithubException, w6)
                            | (Healthy, w6) \<Rightarrow>
                                if gh_pages w6 then (Inl GithubException, w6)
                                else (Inr (), w6\<lparr>gh_pages := True\<rparr>))))))"

definition main :: "env \<Rightarrow> world \<Rightarrow> string list \<Rightarrow> run \<times> world \<times> string list" where
  "main e w argv =
     (case module_init e w of
        (Inl x, w0) \<Rightarrow> (\<lparr>ending = Uncaught x, stdout = [], written = None\<rparr>, w0, [])
      | (Inr u, w0) \<Rightarrow>
          if length argv \<noteq> 2
          then (\<lparr>ending = Exit 1,
                 stdout = [''Usage: python dropbox_to_github.py your_shopify_import.csv''],
                 written = None\<rparr>, w0, [])
          else
            (case process_csv e w0 (argv ! 1) of
               (Inl x, w', attempts) \<Rightarrow>
                 (\<lparr>ending = Uncaught x, stdout = [], written = None\<rparr>, w', attempts)
             | (Inr out, w', attempts) \<Rightarrow>
                 (\<lparr>ending = Exit 0, stdout = [], written = Some out\<rparr>, w', attempts)))"

section \<open>Test doubles for the two services\<close>

text \<open>
  An image host that answers every request with the same outcome, or that serves a fixed
  set of pages and answers 404 for the rest; a repository interface with the same fault
  at every tick; and an environment made of them, with one table under the name
  \<^verbatim>\<open>products.csv\<close>.
\<close>

definition answering :: "http_outcome \<Rightarrow> nat \<Rightarrow> request \<Rightarrow> http_outcome" where
  "answering r n rq = r"

definition serving :: "(string \<times> bytes) list \<Rightarrow> nat \<Rightarrow> request \<Rightarrow> http_outcome" where
  "serving pages n rq =
     (case map_of pages (req_url rq) of
        Some body \<Rightarrow> Response 200 body
      | None \<Rightarrow> Response 404 [])"

definition always :: "fault \<Rightarrow> nat \<Rightarrow> fault" where
  "always f n = f"

definition test_env ::
  "(nat \<Rightarrow> request \<Rightarrow> http_outcome) \<Rightarrow> (nat \<Rightarrow> fault) \<Rightarrow> csv_table \<Rightarrow> dataframe \<Rightarrow> env" where
  "test_env host faults t df =
     \<lparr>bracketed_host_ok = unchecked_host,
      http_get = host,
      api_fault = faults,
      owner_login = ''alex-halloran'',
      repo_name = ''shopify-product-images'',
      csv_files = (\<lambda>f. if f = ''products.csv'' then Some t else None),
      read_csv = (\<lambda>f. if f = ''products.csv'' then Inr df else Inl FileNotFoundError)\<rparr>"

definition no_table :: csv_table where
  "no_table = \<lparr>header = None, records = []\<rparr>"

definition no_frame :: dataframe where
  "no_frame = \<lparr>columns = [], frame_rows = []\<rparr>"

definition empty_world :: world where
  "empty_world =
     \<lparr>clock = 0, requests = [], files = [], commits = [], gh_pages = False, slept = 0\<rparr>"

section \<open>Properties of the URL normalizer\<close>

subsection \<open>Occurrences and replacement\<close>

lemma str_in_char: "str_in [c] s \<longleftrightarrow> c \<in> set s"
  by (induction s) auto

lemma str_in_iff: "str_in p s \<longleftrightarrow> (\<exists>a b. s = a @ p @ b)"
proof (induction s)
  case Nil
  then show ?case by auto
next
  case (Cons c cs)
  show ?case
  proof
    assume "str_in p (c # cs)"
    then consider "prefix p (c # cs)" | "str_in p cs" by auto
    then show "\<exists>a b. c # cs = a @ p @ b"
    proof cases
      case 1
      then obtain b where "c # cs = p @ b" by (auto simp: prefix_def)
      then have "c # cs = [] @ p @ b" by simp
      then show ?thesis by blast
    next
      case 2
      with Cons obtain a b where "cs = a @ p @ b" by blast
      then have "c # cs = (c # a) @ p @ b" by simp
      then show ?thesis by blast
    qed
  next
    assume "\<exists>a b. c # cs = a @ p @ b"
    then obtain a b where ab: "c # cs = a @ p @ b" by blast
    show "str_in p (c # cs)"
    proof (cases a)
      case Nil
      with ab have "prefix p (c # cs)" by (simp add: prefix_def)
      then show ?thesis by simp
    next
      case (Cons x a')
      with ab have "cs = a' @ p @ b" by simp
      with Cons.IH have "str_in p cs" by blast
      then show ?thesis by simp
    qed
  qed
qed

lemma str_in_Cons_right: "str_in p s \<Longrightarrow> str_in p (c # s)"
  by simp

lemma str_in_append_left: "str_in p s \<Longrightarrow> str_in p (t @ s)"
  by (induction t) auto

lemma replace_same_length:
  "old \<noteq> [] \<Longrightarrow> length new = length old \<Longrightarrow>
   length (str_replace old new s) = length s"
proof (induction old new s rule: str_replace.induct)
  case (1 old new)
  then show ?case by simp
next
  case (2 old new c cs)
  show ?case
  proof (cases "prefix old (c # cs)")
    case True
    then have "length old \<le> length (c # cs)" by (rule prefix_length_le)
    with 2 True show ?thesis by simp
  next
    case False
    with 2 show ?thesis by simp
  qed
qed

lemma replace_step_skip:
  "old \<noteq> [] \<Longrightarrow> \<not> prefix old (c # cs) \<Longrightarrow>
   str_replace old new (c # cs) = c # str_replace old new cs"
  by simp

lemma replace_step_hit:
  "old \<noteq> [] \<Longrightarrow> str_replace old new (old @ t) = new @ str_replace old new t"
  by (cases old) simp_all

lemma replace_absent:
  "old \<noteq> [] \<Longrightarrow> \<not> str_in old s \<Longrightarrow> str_replace old new s = s"
  by (induction s) auto

lemma replace_marker_head:
  "str_replace ''dl=0'' ''dl=1'' s = x # r \<Longrightarrow> x \<noteq> CHR ''d'' \<Longrightarrow>
   \<exists>s'. s = x # s' \<and> r = str_replace ''dl=0'' ''dl=1'' s'"
  by (cases s) (auto split: if_splits)

lemma replace_marker_prefix:
  assumes "prefix ''l=0'' (str_replace ''dl=0'' ''dl=1'' s)"
  shows "prefix ''l=0'' s"
proof -
  from assms obtain r where r: "str_replace ''dl=0'' ''dl=1'' s = CHR ''l'' # CHR ''='' # CHR ''0'' # r"
    by (auto simp: prefix_def)
  from replace_marker_head [OF r] obtain s1
    where s1: "s = CHR ''l'' # s1" "CHR ''='' # CHR ''0'' # r = str_replace ''dl=0'' ''dl=1'' s1"
    by auto
  from replace_marker_head [OF s1(2) [symmetric]] obtain s2
    where s2: "s1 = CHR ''='' # s2" "CHR ''0'' # r = str_replace ''dl=0'' ''dl=1'' s2"
    by auto
  from replace_marker_head [OF s2(2) [symmetric]] obtain s3
    where s3: "s2 = CHR ''0'' # s3"
    by auto
  from s1(1) s2(1) s3 show ?thesis by simp
qed

lemma replace_marker_gone: "\<not> str_in ''dl=0'' (str_replace ''dl=0'' ''dl=1'' s)"
proof (induction s rule: length_induct)
  case (1 s)
  show ?case
  proof (cases s)
    case Nil
    then show ?thesis by simp
  next
    case (Cons c cs)
    show ?thesis
    proof (cases "prefix ''dl=0'' s")
      case True
      then obtain t where t: "s = ''dl=0'' @ t" by (auto simp: prefix_def)
      then have "length t < length s" by simp
      with 1 have "\<not> str_in ''dl=0'' (str_replace ''dl=0'' ''dl=1'' t)" by blast
      moreover have "str_replace ''dl=0'' ''dl=1'' s = ''dl=1'' @ str_replace ''dl=0'' ''dl=1'' t"
        unfolding t by (rule replace_step_hit) simp
      ultimately show ?thesis by simp
    next
      case False
      then have np: "\<not> prefix ''dl=0'' (c # cs)" unfolding Cons .
      from Cons have "length cs < length s" by simp
      with 1 have ih: "\<not> str_in ''dl=0'' (str_replace ''dl=0'' ''dl=1'' cs)" by blast
      have eq: "str_replace ''dl=0'' ''dl=1'' s = c # str_replace ''dl=0'' ''dl=1'' cs"
        unfolding Cons by (rule replace_step_skip [OF _ np]) simp
      have nq: "\<not> prefix ''dl=0'' (c # str_replace ''dl=0'' ''dl=1'' cs)"
      proof
        assume p: "prefix ''dl=0'' (c # str_replace ''dl=0'' ''dl=1'' cs)"
        note pc = p [unfolded Cons_prefix_Cons]
        from pc have c: "CHR ''d'' = c" by (rule conjunct1)
        from pc have "prefix ''l=0'' (str_replace ''dl=0'' ''dl=1'' cs)" by (rule conjunct2)
        then have "prefix ''l=0'' cs" by (rule replace_marker_prefix)
        with c have "prefix ''dl=0'' (c # cs)" unfolding Cons_prefix_Cons by (rule conjI)
        with np show False by (rule notE)
      qed
      show ?thesis by (simp only: eq str_in.simps nq ih simp_thms)
    qed
  qed
qed


lemma split3:
  "[x, y, z] = a @ us \<Longrightarrow>
   (a = [] \<and> us = [x, y, z]) \<or> (a = [x] \<and> us = [y, z]) \<or>
   (a = [x, y] \<and> us = [z]) \<or> (a = [x, y, z] \<and> us = [])"
  by (auto simp: Cons_eq_append_conv)

lemma marker_no_overlap:
  assumes np: "\<not> prefix ''dl=0'' (c # a)"
  shows "\<not> prefix ''dl=0'' (c # a @ ''dl=0'' @ b)"
proof
  assume "prefix ''dl=0'' (c # a @ ''dl=0'' @ b)"
  then have "prefix ''dl=0'' ((c # a) @ ''dl=0'' @ b)" by (simp only: append_Cons)
  then have "prefix ''dl=0'' (c # a) \<or>
      (\<exists>us. ''dl=0'' = (c # a) @ us \<and> prefix us (''dl=0'' @ b))"
    by (simp only: prefix_append)
  with np have "\<exists>us. ''dl=0'' = (c # a) @ us \<and> prefix us (''dl=0'' @ b)"
    by (simp only: simp_thms)
  then obtain us where us: "''dl=0'' = (c # a) @ us" and pu: "prefix us (''dl=0'' @ b)"
    by (elim exE conjE)
  from us have c: "CHR ''d'' = c" and "''l=0'' = a @ us" by simp_all
  from split3 [OF this(2)] show False
  proof (elim disjE conjE)
    assume "us = ''l=0''" with pu show False by simp
  next
    assume "us = ''=0''" with pu show False by simp
  next
    assume "us = ''0''" with pu show False by simp
  next
    assume "a = ''l=0''"
    with c have "prefix ''dl=0'' (c # a)" unfolding Cons_prefix_Cons by simp
    with np show False by (rule notE)
  qed
qed

lemma marker_not_straddling:
  assumes "\<not> str_in ''dl=0'' a"
  shows "str_replace ''dl=0'' ''dl=1'' (a @ ''dl=0'' @ b) = a @ ''dl=1'' @ str_replace ''dl=0'' ''dl=1'' b"
  using assms
proof (induction a)
  case Nil
  have "str_replace ''dl=0'' ''dl=1'' (''dl=0'' @ b) = ''dl=1'' @ str_replace ''dl=0'' ''dl=1'' b"
    by (rule replace_step_hit) simp
  then show ?case by (simp only: append_Nil)
next
  case (Cons c a)
  note nn = Cons.prems [unfolded str_in.simps]
  from nn have np: "\<not> prefix ''dl=0'' (c # a)" by (rule contrapos_nn) (rule disjI1)
  from nn have na: "\<not> str_in ''dl=0'' a" by (rule contrapos_nn) (rule disjI2)
  have "str_replace ''dl=0'' ''dl=1'' (c # a @ ''dl=0'' @ b) =
      c # str_replace ''dl=0'' ''dl=1'' (a @ ''dl=0'' @ b)"
    by (rule replace_step_skip [OF _ marker_no_overlap [OF np]]) simp
  with Cons.IH [OF na] show ?case by (simp only: append_Cons)
qed

text \<open>
  Claim C10. \<^verbatim>\<open>get_download_url\<close> is idempotent: applied to its own result it returns
  that result, since a rewritten URL has no \<^verbatim>\<open>dl=0\<close> left in it.
\<close>

theorem get_download_url_idempotent:
  "get_download_url (get_download_url u) = get_download_url u"
  using replace_marker_gone [of u] by (simp add: get_download_url_def)

subsection \<open>Direct-download links\<close>

lemma drop_past_three: "3 \<le> j \<Longrightarrow> drop j (x # y # z # t) = drop (j - 3) t"
  using drop_append [of j "[x, y, z]" t] by (simp add: numeral_3_eq_3)

lemma replace_marker_pointwise:
  "i < length s \<Longrightarrow>
   str_replace ''dl=0'' ''dl=1'' s ! i = s ! i \<or>
   (s ! i = CHR ''0'' \<and> str_replace ''dl=0'' ''dl=1'' s ! i = CHR ''1'' \<and> 3 \<le> i \<and>
    take 4 (drop (i - 3) s) = ''dl=0'')"
proof (induction s arbitrary: i rule: length_induct)
  case (1 s)
  show ?case
  proof (cases "prefix ''dl=0'' s")
    case True
    then obtain t where t: "s = ''dl=0'' @ t" by (auto simp: prefix_def)
    have eq: "str_replace ''dl=0'' ''dl=1'' s = ''dl=1'' @ str_replace ''dl=0'' ''dl=1'' t"
      unfolding t by (rule replace_step_hit) simp
    consider "i = 0" | "i = 1" | "i = 2" | "i = 3" | "4 \<le> i" by linarith
    then show ?thesis
    proof cases
      case 1 then show ?thesis by (simp add: eq t)
    next
      case 2 then show ?thesis by (simp add: eq t)
    next
      case 3 then show ?thesis by (simp add: eq t)
    next
      case 4 then show ?thesis by (simp add: eq t)
    next
      case 5
      then obtain j where j: "i = j + 4" by (metis le_add_diff_inverse2)
      with 1(2) t have jl: "j < length t" by simp
      from t have "length t < length s" by simp
      with 1(1) jl have ih:
        "str_replace ''dl=0'' ''dl=1'' t ! j = t ! j \<or>
         (t ! j = CHR ''0'' \<and> str_replace ''dl=0'' ''dl=1'' t ! j = CHR ''1'' \<and> 3 \<le> j \<and>
          take 4 (drop (j - 3) t) = ''dl=0'')"
        by blast
      have a: "s ! i = t ! j" by (simp add: t j nth_append)
      have b: "str_replace ''dl=0'' ''dl=1'' s ! i = str_replace ''dl=0'' ''dl=1'' t ! j"
        by (simp add: eq j nth_append)
      have c: "drop (i - 3) s = drop (j - 3) t" if "3 \<le> j"
        using that by (simp add: t j drop_past_three)
      from ih show ?thesis unfolding a b using c j by auto
    qed
  next
    case False
    from 1(2) obtain c cs where s: "s = c # cs" by (cases s) auto
    from False have np: "\<not> prefix ''dl=0'' (c # cs)" unfolding s .
    have eq: "str_replace ''dl=0'' ''dl=1'' s = c # str_replace ''dl=0'' ''dl=1'' cs"
      unfolding s by (rule replace_step_skip [OF _ np]) simp
    show ?thesis
    proof (cases i)
      case 0
      then show ?thesis by (simp add: eq s)
    next
      case (Suc j)
      with 1(2) s have jl: "j < length cs" by simp
      from s have "length cs < length s" by simp
      with 1(1) jl have ih:
        "str_replace ''dl=0'' ''dl=1'' cs ! j = cs ! j \<or>
         (cs ! j = CHR ''0'' \<and> str_replace ''dl=0'' ''dl=1'' cs ! j = CHR ''1'' \<and> 3 \<le> j \<and>
          take 4 (drop (j - 3) cs) = ''dl=0'')"
        by blast
      have a: "s ! i = cs ! j" by (simp add: s Suc)
      have b: "str_replace ''dl=0'' ''dl=1'' s ! i = str_replace ''dl=0'' ''dl=1'' cs ! j"
        by (simp add: eq Suc)
      have c: "drop (i - 3) s = drop (j - 3) cs" if "3 \<le> j"
      proof -
        from that have "i - 3 = Suc (j - 3)" using Suc by simp
        then show ?thesis by (simp add: s)
      qed
      from ih show ?thesis unfolding a b using c Suc by auto
    qed
  qed
qed

text \<open>
  Claim C2, as the code has it. \<^verbatim>\<open>get_download_url\<close> looks for \<^verbatim>\<open>dropbox.com\<close> and
  \<^verbatim>\<open>dl=0\<close> anywhere in the string, not in the host and the query. A string without one
  of them is returned as it is. In a string with both, every occurrence of \<^verbatim>\<open>dl=0\<close>
  becomes \<^verbatim>\<open>dl=1\<close>: the length stays, no \<^verbatim>\<open>dl=0\<close> is left, and a position that
  changes is the \<^verbatim>\<open>0\<close> of an occurrence. When \<^verbatim>\<open>dl=0\<close> occurs once, exactly that
  marker is flipped and everything around it is unchanged.
\<close>

theorem get_download_url_rewrite:
  "(\<not> (str_in ''dropbox.com'' u \<and> str_in ''dl=0'' u) \<longrightarrow> get_download_url u = u) \<and>
   (str_in ''dropbox.com'' u \<and> str_in ''dl=0'' u \<longrightarrow>
      length (get_download_url u) = length u \<and>
      \<not> str_in ''dl=0'' (get_download_url u) \<and>
      (\<forall>i<length u.
         get_download_url u ! i = u ! i \<or>
         (u ! i = CHR ''0'' \<and> get_download_url u ! i = CHR ''1'' \<and> 3 \<le> i \<and>
          take 4 (drop (i - 3) u) = ''dl=0''))) \<and>
   (\<forall>a b. u = a @ ''dl=0'' @ b \<and> str_in ''dropbox.com'' u \<and>
          \<not> str_in ''dl=0'' a \<and> \<not> str_in ''dl=0'' b \<longrightarrow>
          get_download_url u = a @ ''dl=1'' @ b)"
proof (intro conjI impI allI)
  assume "\<not> (str_in ''dropbox.com'' u \<and> str_in ''dl=0'' u)"
  then show "get_download_url u = u" unfolding get_download_url_def by (rule if_not_P)
next
  assume h: "str_in ''dropbox.com'' u \<and> str_in ''dl=0'' u"
  then have eq: "get_download_url u = str_replace ''dl=0'' ''dl=1'' u"
    by (simp add: get_download_url_def)
  show "length (get_download_url u) = length u"
    unfolding eq by (rule replace_same_length) simp_all
  show "\<not> str_in ''dl=0'' (get_download_url u)"
    unfolding eq by (rule replace_marker_gone)
  fix i assume "i < length u"
  then show "get_download_url u ! i = u ! i \<or>
         (u ! i = CHR ''0'' \<and> get_download_url u ! i = CHR ''1'' \<and> 3 \<le> i \<and>
          take 4 (drop (i - 3) u) = ''dl=0'')"
    unfolding eq by (rule replace_marker_pointwise)
next
  fix a b
  assume h: "u = a @ ''dl=0'' @ b \<and> str_in ''dropbox.com'' u \<and>
          \<not> str_in ''dl=0'' a \<and> \<not> str_in ''dl=0'' b"
  from h have u: "u = a @ ''dl=0'' @ b" by (rule conjunct1)
  from h have d: "str_in ''dropbox.com'' u" by (rule conjunct2 [THEN conjunct1])
  from h have na: "\<not> str_in ''dl=0'' a" by (rule conjunct2 [THEN conjunct2, THEN conjunct1])
  from h have nb: "\<not> str_in ''dl=0'' b" by (rule conjunct2 [THEN conjunct2, THEN conjunct2])
  have "str_in ''dl=0'' u" unfolding u str_in_iff by (intro exI) (rule refl)
  with d have "get_download_url u = str_replace ''dl=0'' ''dl=1'' u"
    by (simp add: get_download_url_def)
  also have "\<dots> = a @ ''dl=1'' @ str_replace ''dl=0'' ''dl=1'' b"
    unfolding u by (rule marker_not_straddling [OF na])
  also have "str_replace ''dl=0'' ''dl=1'' b = b"
    by (rule replace_absent [OF _ nb]) simp
  finally show "get_download_url u = a @ ''dl=1'' @ b" .
qed

text \<open>The theorem at a share link, and at a URL of another host.\<close>

theorem get_download_url_rewrite_witness:
  "str_in ''dropbox.com'' ''https://www.dropbox.com/s/abc/photo.jpg?dl=0'' \<and>
   \<not> str_in ''dl=0'' ''https://www.dropbox.com/s/abc/photo.jpg?'' \<and>
   get_download_url ''https://www.dropbox.com/s/abc/photo.jpg?dl=0'' =
     ''https://www.dropbox.com/s/abc/photo.jpg?dl=1'' \<and>
   \<not> str_in ''dropbox.com'' ''https://example.com/a/photo.jpg?dl=0'' \<and>
   get_download_url ''https://example.com/a/photo.jpg?dl=0'' =
     ''https://example.com/a/photo.jpg?dl=0''"
proof -
  have d: "str_in ''dropbox.com'' ''https://www.dropbox.com/s/abc/photo.jpg?dl=0''" by simp
  have na: "\<not> str_in ''dl=0'' ''https://www.dropbox.com/s/abc/photo.jpg?''" by simp
  have nb: "\<not> str_in ''dl=0'' []" by simp
  have nd: "\<not> str_in ''dropbox.com'' ''https://example.com/a/photo.jpg?dl=0''" by simp
  from get_download_url_rewrite [of "''https://www.dropbox.com/s/abc/photo.jpg?dl=0''"]
  have "\<forall>a b. ''https://www.dropbox.com/s/abc/photo.jpg?dl=0'' = a @ ''dl=0'' @ b \<and>
          str_in ''dropbox.com'' ''https://www.dropbox.com/s/abc/photo.jpg?dl=0'' \<and>
          \<not> str_in ''dl=0'' a \<and> \<not> str_in ''dl=0'' b \<longrightarrow>
          get_download_url ''https://www.dropbox.com/s/abc/photo.jpg?dl=0'' = a @ ''dl=1'' @ b"
    by (rule conjunct2 [THEN conjunct2])
  from this [rule_format, of "''https://www.dropbox.com/s/abc/photo.jpg?''" "[]"] d na nb
  have one: "get_download_url ''https://www.dropbox.com/s/abc/photo.jpg?dl=0'' =
     ''https://www.dropbox.com/s/abc/photo.jpg?dl=1''" by simp
  from get_download_url_rewrite [of "''https://example.com/a/photo.jpg?dl=0''"] nd
  have two: "get_download_url ''https://example.com/a/photo.jpg?dl=0'' =
     ''https://example.com/a/photo.jpg?dl=0''" by simp
  from d na one nd two show ?thesis by (intro conjI)
qed

text \<open>
  Claim C2 as stated fails twice. A share link whose path holds \<^verbatim>\<open>dl=0\<close> has its path
  rewritten as well as its query; and a URL of another host that mentions
  \<^verbatim>\<open>dropbox.com\<close> in its path is rewritten, although it is not a link of the service.
\<close>

theorem get_download_url_counterexample:
  "urlparse unchecked_host ''https://www.dropbox.com/s/dl=0/photo.jpg?dl=0'' =
     Inr \<lparr>scheme = ''https'', netloc = ''www.dropbox.com'', path = ''/s/dl=0/photo.jpg'',
          params = [], query = ''dl=0'', fragment = []\<rparr> \<and>
   get_download_url ''https://www.dropbox.com/s/dl=0/photo.jpg?dl=0'' =
     ''https://www.dropbox.com/s/dl=1/photo.jpg?dl=1'' \<and>
   urlparse unchecked_host ''https://example.com/dropbox.com/a.jpg?dl=0'' =
     Inr \<lparr>scheme = ''https'', netloc = ''example.com'', path = ''/dropbox.com/a.jpg'',
          params = [], query = ''dl=0'', fragment = []\<rparr> \<and>
   get_download_url ''https://example.com/dropbox.com/a.jpg?dl=0'' =
     ''https://example.com/dropbox.com/a.jpg?dl=1''"
  by code_simp

subsection \<open>Asset names\<close>

lemma before_first_absent: "c \<notin> set (before_first c s)"
  by (auto simp: before_first_def dest: set_takeWhileD)

lemma before_first_id: "c \<notin> set s \<Longrightarrow> before_first c s = s"
  by (auto simp: before_first_def takeWhile_eq_all_conv)

lemma set_before_first: "set (before_first c s) \<subseteq> set s"
  by (auto simp: before_first_def dest: set_takeWhileD)

lemma set_after_last: "set (after_last c s) \<subseteq> set s"
  by (auto simp: after_last_def dest: set_takeWhileD)

lemma set_upto_last: "set (upto_last c s) \<subseteq> set s"
  by (auto simp: upto_last_def dest: set_dropWhileD)

lemma after_last_absent: "c \<notin> set (after_last c s)"
  by (auto simp: after_last_def dest: set_takeWhileD)

lemma upto_after_last: "upto_last c s @ after_last c s = s"
proof -
  have "rev (dropWhile (\<lambda>x. x \<noteq> c) (rev s)) @ rev (takeWhile (\<lambda>x. x \<noteq> c) (rev s)) =
        rev (takeWhile (\<lambda>x. x \<noteq> c) (rev s) @ dropWhile (\<lambda>x. x \<noteq> c) (rev s))"
    by (simp only: rev_append)
  then show ?thesis by (simp add: upto_last_def after_last_def)
qed

lemma upto_last_ends: "upto_last c s = [] \<or> last (upto_last c s) = c"
proof (cases "dropWhile (\<lambda>x. x \<noteq> c) (rev s)")
  case Nil
  then show ?thesis by (simp add: upto_last_def)
next
  case (Cons x xs)
  then have "x = c" using hd_dropWhile [of "\<lambda>x. x \<noteq> c" "rev s"] by auto
  with Cons show ?thesis by (simp add: upto_last_def)
qed

lemma set_split_params: "set (fst (split_params x)) \<subseteq> set x"
proof -
  have "set (upto_last CHR ''/'' x @ before_first CHR '';'' (after_last CHR ''/'' x)) \<subseteq> set x"
    using set_upto_last [of "CHR ''/''" x] set_after_last [of "CHR ''/''" x]
      set_before_first [of "CHR '';''" "after_last CHR ''/'' x"]
    by auto
  then show ?thesis by (simp add: split_params_def Let_def)
qed

lemma urlparse_path_no_query:
  assumes "urlparse ck u = Inr p"
  shows "CHR ''?'' \<notin> set (path p)"
proof -
  obtain sch url1 where a: "split_scheme (clean_url u) = (sch, url1)" by (cases "split_scheme (clean_url u)")
  obtain loc url2 where b: "split_netloc url1 = (loc, url2)" by (cases "split_netloc url1")
  define url4 where "url4 = before_first CHR ''?'' (before_first CHR ''#'' url2)"
  have q: "CHR ''?'' \<notin> set url4" unfolding url4_def by (rule before_first_absent)
  from assms have "path p = fst (if sch \<in> set uses_params \<and> CHR '';'' \<in> set url4
                                  then split_params url4 else (url4, []))"
    by (auto simp: urlparse_def Let_def a b url4_def case_prod_beta split: if_splits)
  then have "path p = url4 \<or> path p = fst (split_params url4)"
    by (simp split: if_splits)
  with q set_split_params [of url4] show ?thesis by auto
qed

lemma length_hex_pairs: "length (concat (map (\<lambda>b. [f b, g b]) xs)) = 2 * length xs"
  by (induction xs) simp_all

lemma hex_lower_digit: "hex_lower d \<in> set ''0123456789abcdef''"
  unfolding hex_lower_def by (rule nth_mem) simp

lemma length_le_bytes: "length (le_bytes k n) = k"
  by (simp add: le_bytes_def)

lemma length_md5_digest: "length (md5_digest m) = 16"
proof -
  obtain a b c d where
    "fold (\<lambda>blk s. md5_block s blk) (chunks 64 (md5_pad m))
       (0x67452301, 0xefcdab89, 0x98badcfe, 0x10325476) = (a, b, c, d)"
    by (rule prod_cases4)
  then have "md5_digest m = concat (map (\<lambda>w. le_bytes 4 (unat w)) [a, b, c, d])"
    by (simp only: md5_digest_def prod.case)
  then show ?thesis by (simp add: length_le_bytes)
qed

lemma length_md5_hexdigest: "length (md5_hexdigest s) = 32"
  by (simp add: md5_hexdigest_def length_hex_pairs length_md5_digest)

lemma set_md5_hexdigest: "set (md5_hexdigest s) \<subseteq> set ''0123456789abcdef''"
proof
  fix c assume "c \<in> set (md5_hexdigest s)"
  then obtain b where "c = hex_lower (b div 16) \<or> c = hex_lower b"
    by (auto simp: md5_hexdigest_def)
  then show "c \<in> set ''0123456789abcdef''"
  proof
    assume "c = hex_lower (b div 16)"
    then show ?thesis by (simp only: hex_lower_digit)
  next
    assume "c = hex_lower b"
    then show ?thesis by (simp only: hex_lower_digit)
  qed
qed

lemma get_safe_filename_parsed:
  assumes "urlparse ck url = Inr p"
  shows "get_safe_filename ck url =
     Inr (if 100 < length (basename (path p)) \<or> CHR ''&'' \<in> set (basename (path p))
          then md5_hexdigest url @
               (if splitext_ext (basename (path p)) = [] then ''.jpg''
                else splitext_ext (basename (path p)))
          else basename (path p))"
proof -
  have nq: "CHR ''?'' \<notin> set (basename (path p))"
    using urlparse_path_no_query [OF assms] set_after_last [of "CHR ''/''" "path p"]
    by (auto simp: basename_def)
  then have "before_first CHR ''?'' (basename (path p)) = basename (path p)"
    by (rule before_first_id)
  with nq show ?thesis
    by (simp add: get_safe_filename_def assms Let_def str_in_char)
qed

text \<open>
  Claim C3, as the code has it. For a URL that \<^verbatim>\<open>urlparse\<close> accepts, the candidate is
  the last segment of the path; it has no \<^verbatim>\<open>?\<close> in it, so only its length and an
  \<^verbatim>\<open>&\<close> decide. A candidate of at most 100 characters without \<^verbatim>\<open>&\<close> is returned as
  it is, the empty one included; otherwise the result is the 32 lower-case hexadecimal
  digits of the MD5 digest of the whole URL, followed by the candidate's extension, or by
  \<^verbatim>\<open>.jpg\<close> when it has none.
\<close>

theorem get_safe_filename_cases:
  assumes "urlparse ck url = Inr p"
  shows "(length (basename (path p)) \<le> 100 \<and> CHR ''&'' \<notin> set (basename (path p)) \<longrightarrow>
            get_safe_filename ck url = Inr (basename (path p))) \<and>
         (100 < length (basename (path p)) \<or> CHR ''&'' \<in> set (basename (path p)) \<longrightarrow>
            get_safe_filename ck url =
              Inr (md5_hexdigest url @
                   (if splitext_ext (basename (path p)) = [] then ''.jpg''
                    else splitext_ext (basename (path p))))) \<and>
         length (md5_hexdigest url) = 32 \<and>
         set (md5_hexdigest url) \<subseteq> set ''0123456789abcdef'' \<and>
         path p = upto_last CHR ''/'' (path p) @ basename (path p) \<and>
         (upto_last CHR ''/'' (path p) = [] \<or> last (upto_last CHR ''/'' (path p)) = CHR ''/'') \<and>
         CHR ''/'' \<notin> set (basename (path p)) \<and>
         CHR ''?'' \<notin> set (basename (path p)) \<and>
         (basename (path p) = [] \<longrightarrow> get_safe_filename ck url = Inr [])"
proof (intro conjI impI)
  note eq = get_safe_filename_parsed [OF assms]
  show "get_safe_filename ck url = Inr (basename (path p))"
    if "length (basename (path p)) \<le> 100 \<and> CHR ''&'' \<notin> set (basename (path p))"
    using that by (simp add: eq)
  show "get_safe_filename ck url =
      Inr (md5_hexdigest url @
           (if splitext_ext (basename (path p)) = [] then ''.jpg''
            else splitext_ext (basename (path p))))"
    if "100 < length (basename (path p)) \<or> CHR ''&'' \<in> set (basename (path p))"
    using that by (simp only: eq if_True)
  show "length (md5_hexdigest url) = 32" by (rule length_md5_hexdigest)
  show "set (md5_hexdigest url) \<subseteq> set ''0123456789abcdef''" by (rule set_md5_hexdigest)
  show "path p = upto_last CHR ''/'' (path p) @ basename (path p)"
    by (simp add: basename_def upto_after_last)
  show "upto_last CHR ''/'' (path p) = [] \<or> last (upto_last CHR ''/'' (path p)) = CHR ''/''"
    by (rule upto_last_ends)
  show "CHR ''/'' \<notin> set (basename (path p))"
    unfolding basename_def by (rule after_last_absent)
  show "CHR ''?'' \<notin> set (basename (path p))"
    using urlparse_path_no_query [OF assms] set_after_last [of "CHR ''/''" "path p"]
    by (auto simp: basename_def)
  show "get_safe_filename ck url = Inr []" if "basename (path p) = []"
    using that by (simp add: eq)
qed

lemma parse_hashed_example:
  "urlparse unchecked_host ''https://www.dropbox.com/s/abc/a&b.png?dl=0'' =
     Inr \<lparr>scheme = ''https'', netloc = ''www.dropbox.com'', path = ''/s/abc/a&b.png'',
          params = [], query = ''dl=0'', fragment = []\<rparr>"
  by code_simp

text \<open>The theorem at a URL whose last segment has an \<^verbatim>\<open>&\<close>.\<close>

theorem get_safe_filename_cases_witness:
  "urlparse unchecked_host ''https://www.dropbox.com/s/abc/a&b.png?dl=0'' =
     Inr \<lparr>scheme = ''https'', netloc = ''www.dropbox.com'', path = ''/s/abc/a&b.png'',
          params = [], query = ''dl=0'', fragment = []\<rparr> \<and>
   get_safe_filename unchecked_host ''https://www.dropbox.com/s/abc/a&b.png?dl=0'' =
     Inr (md5_hexdigest ''https://www.dropbox.com/s/abc/a&b.png?dl=0'' @ ''.png'')"
proof -
  have b: "basename ''/s/abc/a&b.png'' = ''a&b.png''" by code_simp
  have x: "splitext_ext ''a&b.png'' = ''.png''" by code_simp
  from get_safe_filename_cases [OF parse_hashed_example]
  show ?thesis by (simp add: parse_hashed_example b x)
qed

text \<open>
  Claim C3 as stated fails for the empty candidate: a URL whose path ends in a slash is
  given the empty name, not a hashed one.
\<close>

theorem get_safe_filename_empty_counterexample:
  "urlparse unchecked_host ''https://www.dropbox.com/s/abc/'' =
     Inr \<lparr>scheme = ''https'', netloc = ''www.dropbox.com'', path = ''/s/abc/'',
          params = [], query = [], fragment = []\<rparr> \<and>
   get_safe_filename unchecked_host ''https://www.dropbox.com/s/abc/'' = Inr []"
  by code_simp

text \<open>
  Claim C1, as the code has it. The name is a function of the URL. Two URLs with the same
  last path segment get the same name, that segment, whenever it has at most 100
  characters and no \<^verbatim>\<open>&\<close>: the query takes no part in it. Only for a longer segment or
  one with an \<^verbatim>\<open>&\<close> are both names hashed, and then they differ exactly when the
  digests of the two URLs differ.
\<close>

theorem get_safe_filename_same_segment:
  assumes "urlparse ck u1 = Inr p1" and "urlparse ck u2 = Inr p2"
    and "basename (path p1) = basename (path p2)"
  shows "(u1 = u2 \<longrightarrow> get_safe_filename ck u1 = get_safe_filename ck u2) \<and>
         (length (basename (path p1)) \<le> 100 \<and> CHR ''&'' \<notin> set (basename (path p1)) \<longrightarrow>
            get_safe_filename ck u1 = Inr (basename (path p1)) \<and>
            get_safe_filename ck u2 = Inr (basename (path p1))) \<and>
         (100 < length (basename (path p1)) \<or> CHR ''&'' \<in> set (basename (path p1)) \<longrightarrow>
            (get_safe_filename ck u1 \<noteq> get_safe_filename ck u2 \<longleftrightarrow>
             md5_hexdigest u1 \<noteq> md5_hexdigest u2))"
proof (intro conjI impI)
  note e1 = get_safe_filename_parsed [OF assms(1)]
  note e2 = get_safe_filename_parsed [OF assms(2), folded assms(3)]
  show "get_safe_filename ck u1 = get_safe_filename ck u2" if "u1 = u2"
    using that by simp
  show "get_safe_filename ck u1 = Inr (basename (path p1))"
    if "length (basename (path p1)) \<le> 100 \<and> CHR ''&'' \<notin> set (basename (path p1))"
    using that by (simp add: e1)
  show "get_safe_filename ck u2 = Inr (basename (path p1))"
    if "length (basename (path p1)) \<le> 100 \<and> CHR ''&'' \<notin> set (basename (path p1))"
    using that by (simp add: e2)
  show "get_safe_filename ck u1 \<noteq> get_safe_filename ck u2 \<longleftrightarrow>
      md5_hexdigest u1 \<noteq> md5_hexdigest u2"
    if "100 < length (basename (path p1)) \<or> CHR ''&'' \<in> set (basename (path p1))"
    using that by (simp only: e1 e2 if_True sum.inject append_same_eq)
qed

text \<open>The theorem at two share links of the same file name.\<close>

theorem get_safe_filename_same_segment_witness:
  "get_safe_filename unchecked_host ''https://www.dropbox.com/s/k1/IMG_0001.jpg?dl=0'' =
     Inr ''IMG_0001.jpg'' \<and>
   get_safe_filename unchecked_host ''https://www.dropbox.com/s/k2/IMG_0001.jpg?dl=0&raw=1'' =
     Inr ''IMG_0001.jpg''"
proof -
  have p1: "urlparse unchecked_host ''https://www.dropbox.com/s/k1/IMG_0001.jpg?dl=0'' =
     Inr \<lparr>scheme = ''https'', netloc = ''www.dropbox.com'', path = ''/s/k1/IMG_0001.jpg'',
          params = [], query = ''dl=0'', fragment = []\<rparr>" by code_simp
  have p2: "urlparse unchecked_host ''https://www.dropbox.com/s/k2/IMG_0001.jpg?dl=0&raw=1'' =
     Inr \<lparr>scheme = ''https'', netloc = ''www.dropbox.com'', path = ''/s/k2/IMG_0001.jpg'',
          params = [], query = ''dl=0&raw=1'', fragment = []\<rparr>" by code_simp
  have b1: "basename ''/s/k1/IMG_0001.jpg'' = ''IMG_0001.jpg''" by code_simp
  have b2: "basename ''/s/k2/IMG_0001.jpg'' = ''IMG_0001.jpg''" by code_simp
  from get_safe_filename_same_segment [OF p1 p2] show ?thesis by (simp add: b1 b2)
qed

text \<open>
  Claim C1 as stated fails at its own example: the \<^verbatim>\<open>&\<close> of the two URLs is in their
  queries, the hashing branch is taken for neither, and both are named \<^verbatim>\<open>photo.jpg\<close>.
\<close>

theorem get_safe_filename_collision_counterexample:
  "''https://www.dropbox.com/a/photo.jpg?x=1&y=2'' \<noteq> ''https://www.dropbox.com/b/photo.jpg?x=3&y=4'' \<and>
   get_safe_filename unchecked_host ''https://www.dropbox.com/a/photo.jpg?x=1&y=2'' =
     Inr ''photo.jpg'' \<and>
   get_safe_filename unchecked_host ''https://www.dropbox.com/b/photo.jpg?x=3&y=4'' =
     Inr ''photo.jpg''"
  by code_simp

section \<open>Properties of the fetcher and the publisher\<close>

lemma tick_fields [simp]:
  "files (tick w) = files w" "commits (tick w) = commits w" "requests (tick w) = requests w"
  "gh_pages (tick w) = gh_pages w" "slept (tick w) = slept w" "clock (tick w) = Suc (clock w)"
  by (simp_all add: tick_def)

lemma write_blob_fields [simp]:
  "files (write_blob ch p msg c w) =
     AList.update p \<lparr>content = c, sha = Suc (length (commits w))\<rparr> (files w)"
  "commits (write_blob ch p msg c w) =
     commits w @ [\<lparr>change = ch, commit_path = p, message = msg\<rparr>]"
  "requests (write_blob ch p msg c w) = requests w"
  "clock (write_blob ch p msg c w) = clock w"
  by (simp_all add: write_blob_def)

lemma download_image_frame:
  assumes "download_image e w url = (r, w')"
  shows "files w' = files w" and "commits w' = commits w"
    and "requests w' = requests w @
           [\<lparr>req_url = get_download_url url, req_stream = True, req_timeout = 30\<rparr>]"
    and "clock w' = Suc (clock w)"
  using assms
  by (auto simp: download_image_def Let_def split: http_outcome.splits if_splits)

lemma api_get_frame: "api_get e w p = (x, w') \<Longrightarrow> w' = tick w"
  by (auto simp: api_get_def split: fault.splits option.splits)

lemma api_get_200:
  "api_get e w p = (Inr r, w') \<Longrightarrow> status_code r = 200 \<Longrightarrow>
   \<exists>b. map_of (files w) p = Some b \<and> json_sha r = Some (sha b)"
  by (auto simp: api_get_def split: fault.splits option.splits)

lemma api_put_success:
  assumes "api_put e w p msg c so = (Inr r, w')" and "status_code r \<in> {200, 201}"
  shows "(so = None \<and> map_of (files w) p = None \<and> w' = tick (write_blob Created p msg c w)) \<or>
         (\<exists>b. so = Some (sha b) \<and> map_of (files w) p = Some b \<and>
              w' = tick (write_blob Updated p msg c w))"
  using assms
  by (auto simp: api_put_def split: fault.splits option.splits if_splits)

lemma api_put_failure:
  assumes "api_put e w p msg c so = (x, w')"
    and "\<forall>r. x = Inr r \<longrightarrow> status_code r \<notin> {200, 201}"
  shows "w' = tick w"
  using assms
  by (auto simp: api_put_def split: fault.splits option.splits if_splits)

lemma get_contents_frame: "get_contents e w p = (x, w') \<Longrightarrow> w' = tick w"
  by (auto simp: get_contents_def split: prod.splits sum.splits option.splits if_splits
      dest: api_get_frame)

lemma get_contents_found:
  "get_contents e w p = (Inr s, w') \<Longrightarrow> \<exists>b. map_of (files w) p = Some b \<and> sha b = s"
  by (auto simp: get_contents_def split: prod.splits sum.splits option.splits if_splits
      dest: api_get_200)

lemma update_file_done:
  assumes "update_file e w p msg c s = (Inr u, w')"
  shows "w' = tick (write_blob Updated p msg c w)"
    and "\<exists>b. map_of (files w) p = Some b \<and> sha b = s"
  using assms
  by (auto simp: update_file_def split: prod.splits sum.splits if_splits
      dest!: api_put_success)

lemma update_file_failed: "update_file e w p msg c s = (Inl x, w') \<Longrightarrow> w' = tick w"
  by (auto simp: update_file_def split: prod.splits sum.splits if_splits
      dest: api_put_failure)

lemma create_file_done:
  assumes "create_file e w p msg c = (Inr u, w')"
  shows "w' = tick (write_blob Created p msg c w)" and "map_of (files w) p = None"
  using assms
  by (auto simp: create_file_def split: prod.splits sum.splits if_splits
      dest!: api_put_success)

lemma create_file_failed: "create_file e w p msg c = (Inl x, w') \<Longrightarrow> w' = tick w"
  by (auto simp: create_file_def split: prod.splits sum.splits if_splits
      dest: api_put_failure)

lemma upload_to_github_success:
  assumes up: "upload_to_github e w url bi = ((u, Some pub), w')"
  shows "\<exists>filename ch msg c.
           get_safe_filename (bracketed_host_ok e) url = Inr filename \<and> u = url \<and>
           pub = pages_url (owner_login e) (repo_name e) (quote filename) \<and>
           files w' = AList.update (''images/'' @ filename)
                        \<lparr>content = c, sha = Suc (length (commits w))\<rparr> (files w) \<and>
           commits w' = commits w @
                        [\<lparr>change = ch, commit_path = ''images/'' @ filename, message = msg\<rparr>] \<and>
           (ch = Updated \<longleftrightarrow> map_of (files w) (''images/'' @ filename) \<noteq> None)"
proof -
  from up obtain filename where f: "get_safe_filename (bracketed_host_ok e) url = Inr filename"
    by (cases "get_safe_filename (bracketed_host_ok e) url") (auto simp: upload_to_github_def)
  obtain d w1 where dl: "download_image e w url = (d, w1)"
    by (cases "download_image e w url")
  from up f dl obtain image_data where d: "d = Some image_data" and ne: "image_data \<noteq> []"
    by (cases d) (auto simp: upload_to_github_def Let_def split: if_splits)
  note fr = download_image_frame [OF dl]
  define p where "p = ''images/'' @ filename"
  define c where "c = b64encode image_data"
  define msg where "msg = ''Add image '' @ filename @ '' [batch '' @ show_nat bi @ '']''"
  obtain g wa where gc: "get_contents e w1 p = (g, wa)" by (cases "get_contents e w1 p")
  note wa = get_contents_frame [OF gc]
  have goal: "u = url \<and> pub = pages_url (owner_login e) (repo_name e) (quote filename) \<and>
        (\<exists>ch. files w' = AList.update p \<lparr>content = c, sha = Suc (length (commits w))\<rparr> (files w) \<and>
           commits w' = commits w @ [\<lparr>change = ch, commit_path = p, message = msg\<rparr>] \<and>
           (ch = Updated \<longleftrightarrow> map_of (files w) p \<noteq> None))"
  proof (cases g)
    case (Inl x)
    obtain r wb where cr: "create_file e wa p msg c = (r, wb)"
      by (cases "create_file e wa p msg c")
    from up f dl d ne gc Inl cr have r: "r = Inr ()" and w': "w' = wb" and u: "u = url"
      and pub: "pub = pages_url (owner_login e) (repo_name e) (quote filename)"
      by (auto simp: upload_to_github_def Let_def p_def c_def msg_def split: sum.splits)
    from create_file_done [OF cr [unfolded r]] wa fr w'
    have "files w' = AList.update p \<lparr>content = c, sha = Suc (length (commits w))\<rparr> (files w)"
      and "commits w' = commits w @ [\<lparr>change = Created, commit_path = p, message = msg\<rparr>]"
      and "map_of (files w) p = None"
      by simp_all
    with u pub show ?thesis by auto
  next
    case (Inr s)
    from get_contents_found [OF gc [unfolded Inr]] wa fr
    obtain b where b: "map_of (files w) p = Some b" by auto
    obtain r wb where uf: "update_file e wa p msg c s = (r, wb)"
      by (cases "update_file e wa p msg c s")
    show ?thesis
    proof (cases r)
      case (Inl x)
      obtain r2 wc where cr: "create_file e wb p msg c = (r2, wc)"
        by (cases "create_file e wb p msg c")
      from up f dl d ne gc Inr uf Inl cr have r2: "r2 = Inr ()"
        by (auto simp: upload_to_github_def Let_def p_def c_def msg_def split: sum.splits)
      from create_file_done(2) [OF cr [unfolded r2]] update_file_failed [OF uf [unfolded Inl]] wa fr
      have "map_of (files w) p = None" by simp
      with b show ?thesis by simp
    next
      case (Inr v)
      from up f dl d ne gc \<open>g = Inr s\<close> uf Inr have w': "w' = wb" and u: "u = url"
        and pub: "pub = pages_url (owner_login e) (repo_name e) (quote filename)"
        by (auto simp: upload_to_github_def Let_def p_def c_def msg_def split: sum.splits)
      from update_file_done(1) [OF uf [unfolded Inr]] wa fr w'
      have "files w' = AList.update p \<lparr>content = c, sha = Suc (length (commits w))\<rparr> (files w)"
        and "commits w' = commits w @ [\<lparr>change = Updated, commit_path = p, message = msg\<rparr>]"
        by simp_all
      with u pub b show ?thesis by auto
    qed
  qed
  with f show ?thesis unfolding p_def by blast
qed

lemma simple_upload_to_github_success:
  assumes up: "simple_upload_to_github e w url = ((u, Some pub), w')"
  shows "\<exists>filename ch msg c.
           get_safe_filename (bracketed_host_ok e) url = Inr filename \<and> u = url \<and>
           pub = pages_url GITHUB_USER GITHUB_REPO_NAME filename \<and>
           files w' = AList.update (''images/'' @ filename)
                        \<lparr>content = c, sha = Suc (length (commits w))\<rparr> (files w) \<and>
           commits w' = commits w @
                        [\<lparr>change = ch, commit_path = ''images/'' @ filename, message = msg\<rparr>] \<and>
           (ch = Updated \<longleftrightarrow> map_of (files w) (''images/'' @ filename) \<noteq> None)"
proof -
  from up obtain filename where f: "get_safe_filename (bracketed_host_ok e) url = Inr filename"
    by (cases "get_safe_filename (bracketed_host_ok e) url") (auto simp: simple_upload_to_github_def)
  obtain d w1 where dl: "download_image e w url = (d, w1)"
    by (cases "download_image e w url")
  from up f dl obtain image_data where d: "d = Some image_data" and ne: "image_data \<noteq> []"
    by (cases d) (auto simp: simple_upload_to_github_def Let_def split: if_splits)
  note fr = download_image_frame [OF dl]
  define p where "p = ''images/'' @ filename"
  define c where "c = b64encode image_data"
  define msg where "msg = ''Add image '' @ filename"
  obtain g w2 where ag: "api_get e w1 p = (g, w2)" by (cases "api_get e w1 p")
  note w2 = api_get_frame [OF ag]
  from up f dl d ne ag obtain response where g: "g = Inr response"
    by (cases g) (auto simp: simple_upload_to_github_def p_def)
  define so where "so = (if status_code response = 200 then json_sha response else None)"
  obtain x w3 where ap: "api_put e w2 p msg c so = (x, w3)"
    by (cases "api_put e w2 p msg c so")
  from up f dl d ne ag g ap obtain r where x: "x = Inr r" and ok: "status_code r \<in> {200, 201}"
    and w': "w' = w3" and u: "u = url" and pub: "pub = pages_url GITHUB_USER GITHUB_REPO_NAME filename"
    by (cases x)
      (auto simp: simple_upload_to_github_def Let_def p_def c_def msg_def so_def split: if_splits)
  from api_put_success [OF ap [unfolded x] ok]
  have "\<exists>ch. files w' = AList.update p \<lparr>content = c, sha = Suc (length (commits w))\<rparr> (files w) \<and>
           commits w' = commits w @ [\<lparr>change = ch, commit_path = p, message = msg\<rparr>] \<and>
           (ch = Updated \<longleftrightarrow> map_of (files w) p \<noteq> None)"
  proof (elim disjE conjE exE)
    assume "so = None" "map_of (files w2) p = None" "w3 = tick (write_blob Created p msg c w2)"
    with w2 fr w' show ?thesis by (intro exI [of _ Created]) simp
  next
    fix b assume "so = Some (sha b)" "map_of (files w2) p = Some b"
      "w3 = tick (write_blob Updated p msg c w2)"
    with w2 fr w' show ?thesis by (intro exI [of _ Updated]) simp
  qed
  with f u pub show ?thesis unfolding p_def by blast
qed




lemma update_present_keys:
  "map_of al k \<noteq> None \<Longrightarrow> map fst (AList.update k v al) = map fst al"
  by (induction al) auto

lemma map_of_update_same: "map_of (AList.update k v al) k = Some v"
  by (simp add: update_conv')

text \<open>
  Claim C4. When publishing a URL has succeeded once, and nothing has been deleted from
  the repository since, a later publishing of the same URL that succeeds reports the
  same public URL, keeps the set of objects as it is, and commits an update of the
  object at the path derived from the URL. This holds for both scripts.
\<close>

theorem publish_twice:
  "(upload_to_github e w url b = ((u1, Some pub1), w1) \<and>
    fst ` set (files w1) \<subseteq> fst ` set (files wx) \<and>
    upload_to_github e wx url b' = ((u2, Some pub2), w2) \<longrightarrow>
      pub2 = pub1 \<and> map fst (files w2) = map fst (files wx) \<and>
      (\<exists>filename msg.
         get_safe_filename (bracketed_host_ok e) url = Inr filename \<and>
         map_of (files w1) (''images/'' @ filename) \<noteq> None \<and>
         commits w2 = commits wx @
           [\<lparr>change = Updated, commit_path = ''images/'' @ filename, message = msg\<rparr>])) \<and>
   (simple_upload_to_github e w url = ((u1, Some pub1), w1) \<and>
    fst ` set (files w1) \<subseteq> fst ` set (files wx) \<and>
    simple_upload_to_github e wx url = ((u2, Some pub2), w2) \<longrightarrow>
      pub2 = pub1 \<and> map fst (files w2) = map fst (files wx) \<and>
      (\<exists>filename msg.
         get_safe_filename (bracketed_host_ok e) url = Inr filename \<and>
         map_of (files w1) (''images/'' @ filename) \<noteq> None \<and>
         commits w2 = commits wx @
           [\<lparr>change = Updated, commit_path = ''images/'' @ filename, message = msg\<rparr>]))"
proof (rule conjI; rule impI)
  assume h: "upload_to_github e w url b = ((u1, Some pub1), w1) \<and>
    fst ` set (files w1) \<subseteq> fst ` set (files wx) \<and>
    upload_to_github e wx url b' = ((u2, Some pub2), w2)"
  from h have first: "upload_to_github e w url b = ((u1, Some pub1), w1)" by (rule conjunct1)
  from h have kept: "fst ` set (files w1) \<subseteq> fst ` set (files wx)"
    by (rule conjunct2 [THEN conjunct1])
  from h have second: "upload_to_github e wx url b' = ((u2, Some pub2), w2)"
    by (rule conjunct2 [THEN conjunct2])
  from upload_to_github_success [OF first] obtain f1 ch1 msg1 c1 where
    f1: "get_safe_filename (bracketed_host_ok e) url = Inr f1"
    and p1: "pub1 = pages_url (owner_login e) (repo_name e) (quote f1)"
    and fl1: "files w1 = AList.update (''images/'' @ f1)
                \<lparr>content = c1, sha = Suc (length (commits w))\<rparr> (files w)"
    by blast
  from upload_to_github_success [OF second] f1 obtain ch2 msg2 c2 where
    p2: "pub2 = pages_url (owner_login e) (repo_name e) (quote f1)"
    and fl2: "files w2 = AList.update (''images/'' @ f1)
                \<lparr>content = c2, sha = Suc (length (commits wx))\<rparr> (files wx)"
    and cm2: "commits w2 = commits wx @
                [\<lparr>change = ch2, commit_path = ''images/'' @ f1, message = msg2\<rparr>]"
    and ch2: "ch2 = Updated \<longleftrightarrow> map_of (files wx) (''images/'' @ f1) \<noteq> None"
    by auto
  have in1: "map_of (files w1) (''images/'' @ f1) \<noteq> None"
    unfolding fl1 by (simp only: map_of_update_same) simp
  then have "''images/'' @ f1 \<in> fst ` set (files w1)" by (simp add: map_of_eq_None_iff)
  with kept have "''images/'' @ f1 \<in> fst ` set (files wx)" by (rule subsetD)
  then have inx: "map_of (files wx) (''images/'' @ f1) \<noteq> None" by (simp add: map_of_eq_None_iff)
  with ch2 have upd: "ch2 = Updated" by (simp only: simp_thms)
  have keys: "map fst (files w2) = map fst (files wx)"
    unfolding fl2 by (rule update_present_keys [OF inx])
  from p1 p2 keys f1 in1 cm2 upd
  show "pub2 = pub1 \<and> map fst (files w2) = map fst (files wx) \<and>
      (\<exists>filename msg.
         get_safe_filename (bracketed_host_ok e) url = Inr filename \<and>
         map_of (files w1) (''images/'' @ filename) \<noteq> None \<and>
         commits w2 = commits wx @
           [\<lparr>change = Updated, commit_path = ''images/'' @ filename, message = msg\<rparr>])"
    by (intro conjI exI [of _ f1] exI [of _ msg2]) simp_all
next
  assume h: "simple_upload_to_github e w url = ((u1, Some pub1), w1) \<and>
    fst ` set (files w1) \<subseteq> fst ` set (files wx) \<and>
    simple_upload_to_github e wx url = ((u2, Some pub2), w2)"
  from h have first: "simple_upload_to_github e w url = ((u1, Some pub1), w1)" by (rule conjunct1)
  from h have kept: "fst ` set (files w1) \<subseteq> fst ` set (files wx)"
    by (rule conjunct2 [THEN conjunct1])
  from h have second: "simple_upload_to_github e wx url = ((u2, Some pub2), w2)"
    by (rule conjunct2 [THEN conjunct2])
  from simple_upload_to_github_success [OF first] obtain f1 ch1 msg1 c1 where
    f1: "get_safe_filename (bracketed_host_ok e) url = Inr f1"
    and p1: "pub1 = pages_url GITHUB_USER GITHUB_REPO_NAME f1"
    and fl1: "files w1 = AList.update (''images/'' @ f1)
                \<lparr>content = c1, sha = Suc (length (commits w))\<rparr> (files w)"
    by blast
  from simple_upload_to_github_success [OF second] f1 obtain ch2 msg2 c2 where
    p2: "pub2 = pages_url GITHUB_USER GITHUB_REPO_NAME f1"
    and fl2: "files w2 = AList.update (''images/'' @ f1)
                \<lparr>content = c2, sha = Suc (length (commits wx))\<rparr> (files wx)"
    and cm2: "commits w2 = commits wx @
                [\<lparr>change = ch2, commit_path = ''images/'' @ f1, message = msg2\<rparr>]"
    and ch2: "ch2 = Updated \<longleftrightarrow> map_of (files wx) (''images/'' @ f1) \<noteq> None"
    by auto
  have in1: "map_of (files w1) (''images/'' @ f1) \<noteq> None"
    unfolding fl1 by (simp only: map_of_update_same) simp
  then have "''images/'' @ f1 \<in> fst ` set (files w1)" by (simp add: map_of_eq_None_iff)
  with kept have "''images/'' @ f1 \<in> fst ` set (files wx)" by (rule subsetD)
  then have inx: "map_of (files wx) (''images/'' @ f1) \<noteq> None" by (simp add: map_of_eq_None_iff)
  with ch2 have upd: "ch2 = Updated" by (simp only: simp_thms)
  have keys: "map fst (files w2) = map fst (files wx)"
    unfolding fl2 by (rule update_present_keys [OF inx])
  from p1 p2 keys f1 in1 cm2 upd
  show "pub2 = pub1 \<and> map fst (files w2) = map fst (files wx) \<and>
      (\<exists>filename msg.
         get_safe_filename (bracketed_host_ok e) url = Inr filename \<and>
         map_of (files w1) (''images/'' @ filename) \<noteq> None \<and>
         commits w2 = commits wx @
           [\<lparr>change = Updated, commit_path = ''images/'' @ filename, message = msg\<rparr>])"
    by (intro conjI exI [of _ f1] exI [of _ msg2]) simp_all
qed

text \<open>The theorem at one share link, published twice in a row by either script.\<close>

theorem publish_twice_witness:
  "fst (upload_to_github
          (test_env (serving [(''https://www.dropbox.com/s/abc/photo.jpg?dl=1'', ''IMG'')])
             (always Healthy) no_table no_frame)
          empty_world ''https://www.dropbox.com/s/abc/photo.jpg?dl=0'' 0) =
     (''https://www.dropbox.com/s/abc/photo.jpg?dl=0'',
      Some ''https://alex-halloran.github.io/shopify-product-images/images/photo.jpg'') \<and>
   fst (upload_to_github
          (test_env (serving [(''https://www.dropbox.com/s/abc/photo.jpg?dl=1'', ''IMG'')])
             (always Healthy) no_table no_frame)
          (snd (upload_to_github
                  (test_env (serving [(''https://www.dropbox.com/s/abc/photo.jpg?dl=1'', ''IMG'')])
                     (always Healthy) no_table no_frame)
                  empty_world ''https://www.dropbox.com/s/abc/photo.jpg?dl=0'' 0))
          ''https://www.dropbox.com/s/abc/photo.jpg?dl=0'' 1) =
     (''https://www.dropbox.com/s/abc/photo.jpg?dl=0'',
      Some ''https://alex-halloran.github.io/shopify-product-images/images/photo.jpg'') \<and>
   map fst (files (snd (upload_to_github
          (test_env (serving [(''https://www.dropbox.com/s/abc/photo.jpg?dl=1'', ''IMG'')])
             (always Healthy) no_table no_frame)
          (snd (upload_to_github
                  (test_env (serving [(''https://www.dropbox.com/s/abc/photo.jpg?dl=1'', ''IMG'')])
                     (always Healthy) no_table no_frame)
                  empty_world ''https://www.dropbox.com/s/abc/photo.jpg?dl=0'' 0))
          ''https://www.dropbox.com/s/abc/photo.jpg?dl=0'' 1))) = [''images/photo.jpg''] \<and>
   fst (simple_upload_to_github
          (test_env (serving [(''https://www.dropbox.com/s/abc/photo.jpg?dl=1'', ''IMG'')])
             (always Healthy) no_table no_frame)
          (snd (simple_upload_to_github
                  (test_env (serving [(''https://www.dropbox.com/s/abc/photo.jpg?dl=1'', ''IMG'')])
                     (always Healthy) no_table no_frame)
                  empty_world ''https://www.dropbox.com/s/abc/photo.jpg?dl=0''))
          ''https://www.dropbox.com/s/abc/photo.jpg?dl=0'') =
     (''https://www.dropbox.com/s/abc/photo.jpg?dl=0'',
      Some ''https://alex-halloran.github.io/shopify-product-images/images/photo.jpg'') \<and>
   map fst (files (snd (simple_upload_to_github
          (test_env (serving [(''https://www.dropbox.com/s/abc/photo.jpg?dl=1'', ''IMG'')])
             (always Healthy) no_table no_frame)
          (snd (simple_upload_to_github
                  (test_env (serving [(''https://www.dropbox.com/s/abc/photo.jpg?dl=1'', ''IMG'')])
                     (always Healthy) no_table no_frame)
                  empty_world ''https://www.dropbox.com/s/abc/photo.jpg?dl=0''))
          ''https://www.dropbox.com/s/abc/photo.jpg?dl=0''))) = [''images/photo.jpg'']"
proof -
  let ?e = "test_env (serving [(''https://www.dropbox.com/s/abc/photo.jpg?dl=1'', ''IMG'')])
             (always Healthy) no_table no_frame"
  let ?u = "''https://www.dropbox.com/s/abc/photo.jpg?dl=0''"
  let ?p = "''https://alex-halloran.github.io/shopify-product-images/images/photo.jpg''"
  let ?w1 = "snd (upload_to_github ?e empty_world ?u 0)"
  let ?w2 = "snd (upload_to_github ?e ?w1 ?u 1)"
  let ?s1 = "snd (simple_upload_to_github ?e empty_world ?u)"
  let ?s2 = "snd (simple_upload_to_github ?e ?s1 ?u)"
  have a1: "fst (upload_to_github ?e empty_world ?u 0) = (?u, Some ?p)" by code_simp
  have a2: "fst (upload_to_github ?e ?w1 ?u 1) = (?u, Some ?p)" by code_simp
  have k1: "map fst (files ?w1) = [''images/photo.jpg'']" by code_simp
  have b1: "fst (simple_upload_to_github ?e empty_world ?u) = (?u, Some ?p)" by code_simp
  have b2: "fst (simple_upload_to_github ?e ?s1 ?u) = (?u, Some ?p)" by code_simp
  have l1: "map fst (files ?s1) = [''images/photo.jpg'']" by code_simp
  from a1 have first: "upload_to_github ?e empty_world ?u 0 = ((?u, Some ?p), ?w1)"
    by (simp add: prod_eq_iff)
  from a2 have second: "upload_to_github ?e ?w1 ?u 1 = ((?u, Some ?p), ?w2)"
    by (simp add: prod_eq_iff)
  from b1 have sfirst: "simple_upload_to_github ?e empty_world ?u = ((?u, Some ?p), ?s1)"
    by (simp add: prod_eq_iff)
  from b2 have ssecond: "simple_upload_to_github ?e ?s1 ?u = ((?u, Some ?p), ?s2)"
    by (simp add: prod_eq_iff)
  note t = publish_twice [of ?e empty_world ?u 0 ?u ?p ?w1 ?w1 1 ?u ?p ?w2]
  from t [THEN conjunct1] first second have "map fst (files ?w2) = map fst (files ?w1)"
    by (simp only: subset_refl simp_thms)
  with k1 have k2: "map fst (files ?w2) = [''images/photo.jpg'']" by simp
  note t' = publish_twice [of ?e empty_world ?u 0 ?u ?p ?s1 ?s1 1 ?u ?p ?s2]
  from t' [THEN conjunct2] sfirst ssecond have "map fst (files ?s2) = map fst (files ?s1)"
    by (simp only: subset_refl simp_thms)
  with l1 have l2: "map fst (files ?s2) = [''images/photo.jpg'']" by simp
  from a1 a2 k2 b2 l2 show ?thesis by (intro conjI)
qed

section \<open>Properties of the orchestrator\<close>

lemma concat_chunks: "0 < n \<Longrightarrow> concat (chunks n xs) = xs"
proof (induction n xs rule: chunks.induct)
  case (1 n xs)
  show ?case
  proof (cases "xs = []")
    case True
    then show ?thesis by (simp add: chunks.simps)
  next
    case False
    with 1 have "concat (chunks n (drop n xs)) = drop n xs" by simp
    with False 1(2) show ?thesis by (subst chunks.simps) simp
  qed
qed

lemma simple_batch_attempts:
  "simple_batch e batch (w, m, a) = (w', m', a') \<Longrightarrow> a' = a @ batch"
proof (induction batch arbitrary: w m a)
  case Nil
  then show ?case by simp
next
  case (Cons url batch)
  obtain r w1 where "simple_upload_to_github e w url = (r, w1)"
    by (cases "simple_upload_to_github e w url")
  with Cons.prems have "simple_batch e batch (w1, record_mapping r m, a @ [url]) = (w', m', a')"
    by simp
  from Cons.IH [OF this] show ?case by simp
qed

lemma simple_batches_attempts:
  "simple_batches e i n bs (w, m, a) = (w', m', a') \<Longrightarrow> a' = a @ concat bs"
proof (induction bs arbitrary: i w m a)
  case Nil
  then show ?case by simp
next
  case (Cons b bs)
  obtain w1 m1 a1 where s: "simple_batch e b (w, m, a) = (w1, m1, a1)"
    by (cases "simple_batch e b (w, m, a)")
  with Cons.prems have "simple_batches e (Suc i) n bs (pause i n w1, m1, a1) = (w', m', a')"
    by simp
  from Cons.IH [OF this] simple_batch_attempts [OF s] show ?case by simp
qed

lemma batch_loop_attempts:
  "batch_loop e bi batch (w, m, a) = (w', m', a') \<Longrightarrow> a' = a @ batch"
proof (induction batch arbitrary: w m a)
  case Nil
  then show ?case by simp
next
  case (Cons url batch)
  obtain r w1 where "upload_to_github e w url bi = (r, w1)"
    by (cases "upload_to_github e w url bi")
  with Cons.prems have "batch_loop e bi batch (w1, record_mapping r m, a @ [url]) = (w', m', a')"
    by simp
  from Cons.IH [OF this] show ?case by simp
qed

lemma batches_loop_attempts:
  "batches_loop e i n bs (w, m, a) = (w', m', a') \<Longrightarrow> a' = a @ concat bs"
proof (induction bs arbitrary: i w m a)
  case Nil
  then show ?case by simp
next
  case (Cons b bs)
  obtain w1 m1 a1 where s: "batch_loop e i b (w, m, a) = (w1, m1, a1)"
    by (cases "batch_loop e i b (w, m, a)")
  with Cons.prems have "batches_loop e (Suc i) n bs (pause i n w1, m1, a1) = (w', m', a')"
    by simp
  from Cons.IH [OF this] batch_loop_attempts [OF s] show ?case by simp
qed

lemma simple_process_csv_attempts:
  assumes "csv_files e f = Some t" and "simple_process_csv e w f = (r, w', attempts)"
  shows "attempts = simple_collect t"
proof -
  obtain w1 m1 a1 where s:
    "simple_batches e 0 ((length (simple_collect t) + simple_BATCH_SIZE - 1) div simple_BATCH_SIZE)
       (chunks simple_BATCH_SIZE (simple_collect t)) (w, [], []) = (w1, m1, a1)"
    by (rule prod_cases3)
  from simple_batches_attempts [OF s] have "a1 = simple_collect t"
    by (simp add: concat_chunks simple_BATCH_SIZE_def)
  moreover from assms s have "attempts = a1"
    by (auto simp: simple_process_csv_def Let_def split: option.splits if_splits)
  ultimately show ?thesis by simp
qed

lemma process_csv_attempts:
  assumes "read_csv e f = Inr df" and "process_csv e w f = (Inr out, w', attempts)"
  shows "\<exists>a b. candidates df ''Image Src'' = Inr a \<and> candidates df ''Variant Image'' = Inr b \<and>
               attempts = list_of_set (a @ b)"
proof -
  from assms obtain a where a: "candidates df ''Image Src'' = Inr a"
    by (cases "candidates df ''Image Src''") (auto simp: process_csv_def)
  from assms a obtain b where b: "candidates df ''Variant Image'' = Inr b"
    by (cases "candidates df ''Variant Image''") (auto simp: process_csv_def)
  obtain w1 m1 a1 where s:
    "batches_loop e 0 ((length (list_of_set (a @ b)) + BATCH_SIZE - 1) div BATCH_SIZE)
       (chunks BATCH_SIZE (list_of_set (a @ b))) (w, [], []) = (w1, m1, a1)"
    by (rule prod_cases3)
  from batches_loop_attempts [OF s] have "a1 = list_of_set (a @ b)"
    by (simp add: concat_chunks BATCH_SIZE_def)
  moreover from assms a b s have "attempts = a1"
    by (auto simp: process_csv_def Let_def)
  ultimately show ?thesis using a b by simp
qed

text \<open>
  The requests that a run sends to the image host: one for every candidate whose asset
  name can be derived, in the order of the list of candidates, and no other. The list
  of candidates has no repetition.
\<close>

lemma api_put_requests: "api_put e w p msg c so = (x, w') \<Longrightarrow> requests w' = requests w"
  by (auto simp: api_put_def split: fault.splits option.splits if_splits)

lemma create_file_requests: "create_file e w p msg c = (x, w') \<Longrightarrow> requests w' = requests w"
  by (auto simp: create_file_def split: prod.splits sum.splits if_splits dest: api_put_requests)

lemma update_file_requests: "update_file e w p msg c s = (x, w') \<Longrightarrow> requests w' = requests w"
  by (auto simp: update_file_def split: prod.splits sum.splits if_splits dest: api_put_requests)

lemma simple_upload_to_github_fetch:
  "requests (snd (simple_upload_to_github e w url)) =
     requests w @
     (if isl (get_safe_filename (bracketed_host_ok e) url) then []
      else [\<lparr>req_url = get_download_url url, req_stream = True, req_timeout = 30\<rparr>])"
proof (cases "get_safe_filename (bracketed_host_ok e) url")
  case (Inl x)
  then show ?thesis by (simp add: simple_upload_to_github_def)
next
  case (Inr filename)
  obtain d w1 where dl: "download_image e w url = (d, w1)"
    by (cases "download_image e w url")
  note fr = download_image_frame(3) [OF dl]
  obtain g w2 where ag: "api_get e w1 (''images/'' @ filename) = (g, w2)"
    by (cases "api_get e w1 (''images/'' @ filename)")
  from api_get_frame [OF ag] fr have r2: "requests w2 = requests w @
      [\<lparr>req_url = get_download_url url, req_stream = True, req_timeout = 30\<rparr>]"
    by simp
  have "requests (snd (simple_upload_to_github e w url)) = requests w @
      [\<lparr>req_url = get_download_url url, req_stream = True, req_timeout = 30\<rparr>]"
  proof (cases d)
    case None
    with Inr dl fr show ?thesis by (simp add: simple_upload_to_github_def)
  next
    case (Some image_data)
    show ?thesis
    proof (cases "image_data = []")
      case True
      with Inr dl Some fr show ?thesis by (simp add: simple_upload_to_github_def)
    next
      case False
      show ?thesis
      proof (cases g)
        case (Inl x)
        with Inr dl Some False ag r2 show ?thesis by (simp add: simple_upload_to_github_def)
      next
        case (Inr response)
        obtain x w3 where ap: "api_put e w2 (''images/'' @ filename) (''Add image '' @ filename)
            (b64encode image_data)
            (if status_code response = 200 then json_sha response else None) = (x, w3)"
          by (rule prod.exhaust)
        from api_put_requests [OF ap] r2 have "requests w3 = requests w @
            [\<lparr>req_url = get_download_url url, req_stream = True, req_timeout = 30\<rparr>]"
          by simp
        with \<open>get_safe_filename (bracketed_host_ok e) url = Inr filename\<close> dl Some False ag Inr ap
        show ?thesis
          by (cases x) (simp_all add: simple_upload_to_github_def Let_def)
      qed
    qed
  qed
  with Inr show ?thesis by simp
qed

lemma upload_to_github_fetch:
  "requests (snd (upload_to_github e w url bi)) =
     requests w @
     (if isl (get_safe_filename (bracketed_host_ok e) url) then []
      else [\<lparr>req_url = get_download_url url, req_stream = True, req_timeout = 30\<rparr>])"
proof (cases "get_safe_filename (bracketed_host_ok e) url")
  case (Inl x)
  then show ?thesis by (simp add: upload_to_github_def)
next
  case (Inr filename)
  obtain d w1 where dl: "download_image e w url = (d, w1)"
    by (cases "download_image e w url")
  note fr = download_image_frame(3) [OF dl]
  have "requests (snd (upload_to_github e w url bi)) = requests w1"
  proof (cases d)
    case None
    with Inr dl show ?thesis by (simp add: upload_to_github_def)
  next
    case (Some image_data)
    show ?thesis
    proof (cases "image_data = []")
      case True
      with Inr dl Some show ?thesis by (simp add: upload_to_github_def)
    next
      case False
      define p where "p = ''images/'' @ filename"
      define c where "c = b64encode image_data"
      define msg where "msg = ''Add image '' @ filename @ '' [batch '' @ show_nat bi @ '']''"
      obtain g wa where gc: "get_contents e w1 p = (g, wa)" by (cases "get_contents e w1 p")
      from get_contents_frame [OF gc] have wa: "requests wa = requests w1" by simp
      define step where "step =
         (case get_contents e w1 p of
            (Inr s, wa) \<Rightarrow>
              (case update_file e wa p msg c s of
                 (Inr u, wb) \<Rightarrow> (Inr u, wb)
               | (Inl x, wb) \<Rightarrow> create_file e wb p msg c)
          | (Inl x, wa) \<Rightarrow> create_file e wa p msg c)"
      have st: "requests (snd step) = requests w1"
      proof (cases g)
        case (Inl x)
        obtain r wb where cr: "create_file e wa p msg c = (r, wb)"
          by (cases "create_file e wa p msg c")
        from create_file_requests [OF cr] wa gc Inl cr show ?thesis by (simp add: step_def)
      next
        case (Inr s)
        obtain r wb where uf: "update_file e wa p msg c s = (r, wb)"
          by (cases "update_file e wa p msg c s")
        note wb = update_file_requests [OF uf]
        show ?thesis
        proof (cases r)
          case (Inl x)
          obtain r2 wc where cr: "create_file e wb p msg c = (r2, wc)"
            by (cases "create_file e wb p msg c")
          from create_file_requests [OF cr] wb wa gc Inr uf Inl cr show ?thesis
            by (simp add: step_def)
        next
          case (Inr u)
          with wb wa gc \<open>g = Inr s\<close> uf show ?thesis by (simp add: step_def)
        qed
      qed
      from \<open>get_safe_filename (bracketed_host_ok e) url = Inr filename\<close> dl Some False
      have "snd (upload_to_github e w url bi) = snd step"
        unfolding step_def p_def c_def msg_def
        by (simp add: upload_to_github_def Let_def split: prod.splits sum.splits)
      with st show ?thesis by simp
    qed
  qed
  with Inr fr show ?thesis by simp
qed

lemma simple_batch_fetches:
  "simple_batch e batch (w, m, a) = (w', m', a') \<Longrightarrow>
   requests w' = requests w @
     map (\<lambda>u. \<lparr>req_url = get_download_url u, req_stream = True, req_timeout = 30\<rparr>)
       (filter (\<lambda>u. \<not> isl (get_safe_filename (bracketed_host_ok e) u)) batch)"
proof (induction batch arbitrary: w m a)
  case Nil
  then show ?case by simp
next
  case (Cons url batch)
  obtain r w1 where s: "simple_upload_to_github e w url = (r, w1)"
    by (cases "simple_upload_to_github e w url")
  with Cons.prems have "simple_batch e batch (w1, record_mapping r m, a @ [url]) = (w', m', a')"
    by simp
  from Cons.IH [OF this] simple_upload_to_github_fetch [of e w url] s show ?case by simp
qed

lemma simple_batches_fetches:
  "simple_batches e i n bs (w, m, a) = (w', m', a') \<Longrightarrow>
   requests w' = requests w @
     map (\<lambda>u. \<lparr>req_url = get_download_url u, req_stream = True, req_timeout = 30\<rparr>)
       (filter (\<lambda>u. \<not> isl (get_safe_filename (bracketed_host_ok e) u)) (concat bs))"
proof (induction bs arbitrary: i w m a)
  case Nil
  then show ?case by simp
next
  case (Cons b bs)
  obtain w1 m1 a1 where s: "simple_batch e b (w, m, a) = (w1, m1, a1)"
    by (cases "simple_batch e b (w, m, a)")
  with Cons.prems have "simple_batches e (Suc i) n bs (pause i n w1, m1, a1) = (w', m', a')"
    by simp
  from Cons.IH [OF this] simple_batch_fetches [OF s] show ?case by (simp add: pause_def)
qed

lemma batch_loop_fetches:
  "batch_loop e bi batch (w, m, a) = (w', m', a') \<Longrightarrow>
   requests w' = requests w @
     map (\<lambda>u. \<lparr>req_url = get_download_url u, req_stream = True, req_timeout = 30\<rparr>)
       (filter (\<lambda>u. \<not> isl (get_safe_filename (bracketed_host_ok e) u)) batch)"
proof (induction batch arbitrary: w m a)
  case Nil
  then show ?case by simp
next
  case (Cons url batch)
  obtain r w1 where s: "upload_to_github e w url bi = (r, w1)"
    by (cases "upload_to_github e w url bi")
  with Cons.prems have "batch_loop e bi batch (w1, record_mapping r m, a @ [url]) = (w', m', a')"
    by simp
  from Cons.IH [OF this] upload_to_github_fetch [of e w url bi] s show ?case by simp
qed

lemma batches_loop_fetches:
  "batches_loop e i n bs (w, m, a) = (w', m', a') \<Longrightarrow>
   requests w' = requests w @
     map (\<lambda>u. \<lparr>req_url = get_download_url u, req_stream = True, req_timeout = 30\<rparr>)
       (filter (\<lambda>u. \<not> isl (get_safe_filename (bracketed_host_ok e) u)) (concat bs))"
proof (induction bs arbitrary: i w m a)
  case Nil
  then show ?case by simp
next
  case (Cons b bs)
  obtain w1 m1 a1 where s: "batch_loop e i b (w, m, a) = (w1, m1, a1)"
    by (cases "batch_loop e i b (w, m, a)")
  with Cons.prems have "batches_loop e (Suc i) n bs (pause i n w1, m1, a1) = (w', m', a')"
    by simp
  from Cons.IH [OF this] batch_loop_fetches [OF s] show ?case by (simp add: pause_def)
qed

lemma simple_collect_distinct: "distinct (simple_collect t)"
  by (simp add: simple_collect_def list_of_set_def split: option.splits)

lemma list_of_set_distinct: "distinct (list_of_set xs) \<and> set (list_of_set xs) = set xs"
  by (simp add: list_of_set_def)

lemma simple_process_csv_fetches:
  assumes "csv_files e f = Some t"
  shows "requests (fst (snd (simple_process_csv e w f))) =
     requests w @
     map (\<lambda>u. \<lparr>req_url = get_download_url u, req_stream = True, req_timeout = 30\<rparr>)
       (filter (\<lambda>u. \<not> isl (get_safe_filename (bracketed_host_ok e) u)) (simple_collect t))"
proof -
  obtain w1 m1 a1 where s:
    "simple_batches e 0 ((length (simple_collect t) + simple_BATCH_SIZE - 1) div simple_BATCH_SIZE)
       (chunks simple_BATCH_SIZE (simple_collect t)) (w, [], []) = (w1, m1, a1)"
    by (rule prod_cases3)
  from assms s have "fst (snd (simple_process_csv e w f)) = w1"
    by (simp add: simple_process_csv_def Let_def split: option.splits)
  with simple_batches_fetches [OF s] show ?thesis
    by (simp add: concat_chunks simple_BATCH_SIZE_def)
qed

lemma process_csv_fetches:
  assumes "read_csv e f = Inr df" and "candidates df ''Image Src'' = Inr a"
    and "candidates df ''Variant Image'' = Inr b"
  shows "requests (fst (snd (process_csv e w f))) =
     requests w @
     map (\<lambda>u. \<lparr>req_url = get_download_url u, req_stream = True, req_timeout = 30\<rparr>)
       (filter (\<lambda>u. \<not> isl (get_safe_filename (bracketed_host_ok e) u)) (list_of_set (a @ b)))"
proof -
  obtain w1 m1 a1 where s:
    "batches_loop e 0 ((length (list_of_set (a @ b)) + BATCH_SIZE - 1) div BATCH_SIZE)
       (chunks BATCH_SIZE (list_of_set (a @ b))) (w, [], []) = (w1, m1, a1)"
    by (rule prod_cases3)
  from assms s have "fst (snd (process_csv e w f)) = w1"
    by (simp add: process_csv_def Let_def)
  with batches_loop_fetches [OF s] show ?thesis
    by (simp add: concat_chunks BATCH_SIZE_def)
qed

text \<open>
  \<^verbatim>\<open>dropbox_to_github.py\<close> does not reach its loop for a table in which the column
  \<^verbatim>\<open>Variant Image\<close> has no value at all.
\<close>

lemma process_csv_empty_column:
  assumes "read_csv e f = Inr df" and "candidates df ''Image Src'' = Inr a"
    and "''Variant Image'' \<in> set (columns df)" and "frame_rows df \<noteq> []"
    and "list_all (\<lambda>x. x = Missing) (column df ''Variant Image'')"
  shows "process_csv e w f = (Inl AttributeError, w, [])"
  using assms by (simp add: process_csv_def candidates_def column_def)

text \<open>
  Claim C7. Every candidate of a table is handed to the fetcher and the publisher once.
  At the table of one row with a share link under \<^verbatim>\<open>Image Src\<close> and nothing under
  \<^verbatim>\<open>Variant Image\<close>, \<^verbatim>\<open>dropbox_to_github.py\<close> finds the candidate and raises
  \<^verbatim>\<open>AttributeError\<close> at the empty column, before its loop: the run ends with that
  exception, no request goes to the image host, and the only commit is the
  \<^verbatim>\<open>images/.gitkeep\<close> of the initialisation. \<^verbatim>\<open>simple_upload.py\<close> finds the same
  candidate in the same table, fetches it once and commits \<^verbatim>\<open>images/photo.jpg\<close> once.
\<close>

theorem candidate_never_submitted:
  "candidates
     \<lparr>columns = [''Handle'', ''Image Src'', ''Variant Image''],
      frame_rows = [[Str ''shirt'', Str ''https://www.dropbox.com/s/abc/photo.jpg?dl=0'',
                     Missing]]\<rparr> ''Image Src'' =
     Inr [''https://www.dropbox.com/s/abc/photo.jpg?dl=0''] \<and>
   process_csv
     (test_env (serving [(''https://www.dropbox.com/s/abc/photo.jpg?dl=1'', ''IMG'')])
        (always Healthy) no_table
        \<lparr>columns = [''Handle'', ''Image Src'', ''Variant Image''],
         frame_rows = [[Str ''shirt'', Str ''https://www.dropbox.com/s/abc/photo.jpg?dl=0'',
                        Missing]]\<rparr>)
     empty_world ''products.csv'' =
     (Inl AttributeError,
      \<lparr>clock = 0, requests = [], files = [], commits = [], gh_pages = False, slept = 0\<rparr>, []) \<and>
   ending (fst (main
     (test_env (serving [(''https://www.dropbox.com/s/abc/photo.jpg?dl=1'', ''IMG'')])
        (always Healthy) no_table
        \<lparr>columns = [''Handle'', ''Image Src'', ''Variant Image''],
         frame_rows = [[Str ''shirt'', Str ''https://www.dropbox.com/s/abc/photo.jpg?dl=0'',
                        Missing]]\<rparr>)
     empty_world [''dropbox_to_github.py'', ''products.csv''])) = Uncaught AttributeError \<and>
   requests (fst (snd (main
     (test_env (serving [(''https://www.dropbox.com/s/abc/photo.jpg?dl=1'', ''IMG'')])
        (always Healthy) no_table
        \<lparr>columns = [''Handle'', ''Image Src'', ''Variant Image''],
         frame_rows = [[Str ''shirt'', Str ''https://www.dropbox.com/s/abc/photo.jpg?dl=0'',
                        Missing]]\<rparr>)
     empty_world [''dropbox_to_github.py'', ''products.csv'']))) = [] \<and>
   map commit_path (commits (fst (snd (main
     (test_env (serving [(''https://www.dropbox.com/s/abc/photo.jpg?dl=1'', ''IMG'')])
        (always Healthy) no_table
        \<lparr>columns = [''Handle'', ''Image Src'', ''Variant Image''],
         frame_rows = [[Str ''shirt'', Str ''https://www.dropbox.com/s/abc/photo.jpg?dl=0'',
                        Missing]]\<rparr>)
     empty_world [''dropbox_to_github.py'', ''products.csv''])))) = [''images/.gitkeep''] \<and>
   simple_collect
     \<lparr>header = Some [''Handle'', ''Image Src'', ''Variant Image''],
      records = [[''shirt'', ''https://www.dropbox.com/s/abc/photo.jpg?dl=0'', '''']]\<rparr> =
     [''https://www.dropbox.com/s/abc/photo.jpg?dl=0''] \<and>
   requests (fst (snd (simple_main
     (test_env (serving [(''https://www.dropbox.com/s/abc/photo.jpg?dl=1'', ''IMG'')])
        (always Healthy)
        \<lparr>header = Some [''Handle'', ''Image Src'', ''Variant Image''],
         records = [[''shirt'', ''https://www.dropbox.com/s/abc/photo.jpg?dl=0'', '''']]\<rparr>
        no_frame)
     empty_world [''simple_upload.py'', ''products.csv'']))) =
     [\<lparr>req_url = ''https://www.dropbox.com/s/abc/photo.jpg?dl=1'', req_stream = True,
       req_timeout = 30\<rparr>] \<and>
   map commit_path (commits (fst (snd (simple_main
     (test_env (serving [(''https://www.dropbox.com/s/abc/photo.jpg?dl=1'', ''IMG'')])
        (always Healthy)
        \<lparr>header = Some [''Handle'', ''Image Src'', ''Variant Image''],
         records = [[''shirt'', ''https://www.dropbox.com/s/abc/photo.jpg?dl=0'', '''']]\<rparr>
        no_frame)
     empty_world [''simple_upload.py'', ''products.csv''])))) = [''images/photo.jpg'']"
  by code_simp

subsection \<open>The mapping table\<close>

text \<open>
  Every entry of the mapping is the public URL that the publisher returned for its key:
  \<^verbatim>\<open>dropbox_to_github.py\<close> builds it from the escaped asset name, \<^verbatim>\<open>simple_upload.py\<close>
  from the asset name itself.
\<close>

lemma update_entries:
  "(a, b) \<in> set (AList.update k v al) \<Longrightarrow> (a, b) \<in> set al \<or> (a, b) = (k, v)"
  by (induction al) (auto split: if_splits)

lemma record_mapping_entries:
  "(k, v) \<in> set (record_mapping r m) \<Longrightarrow> (k, v) \<in> set m \<or> r = (k, Some v)"
  by (cases r) (auto simp: record_mapping_def split: option.splits if_splits dest: update_entries)

lemma batch_loop_entries:
  assumes "batch_loop e bi batch (w, m, a) = (w', m', a')" and "(k, v) \<in> set m'"
  shows "(k, v) \<in> set m \<or>
         (\<exists>f. get_safe_filename (bracketed_host_ok e) k = Inr f \<and>
              v = pages_url (owner_login e) (repo_name e) (quote f))"
  using assms
proof (induction batch arbitrary: w m a)
  case Nil
  then show ?case by simp
next
  case (Cons url batch)
  obtain r w1 where u: "upload_to_github e w url bi = (r, w1)"
    by (cases "upload_to_github e w url bi")
  with Cons.prems have "batch_loop e bi batch (w1, record_mapping r m, a @ [url]) = (w', m', a')"
    by simp
  from Cons.IH [OF this Cons.prems(2)] show ?case
  proof
    assume "(k, v) \<in> set (record_mapping r m)"
    then show ?thesis
    proof (rule record_mapping_entries [THEN disjE])
      assume "(k, v) \<in> set m" then show ?thesis by simp
    next
      assume "r = (k, Some v)"
      with u have "upload_to_github e w url bi = ((k, Some v), w1)" by simp
      from upload_to_github_success [OF this] show ?thesis by auto
    qed
  next
    assume "\<exists>f. get_safe_filename (bracketed_host_ok e) k = Inr f \<and>
              v = pages_url (owner_login e) (repo_name e) (quote f)"
    then show ?thesis by simp
  qed
qed

lemma batches_loop_entries:
  assumes "batches_loop e i n bs (w, m, a) = (w', m', a')" and "(k, v) \<in> set m'"
  shows "(k, v) \<in> set m \<or>
         (\<exists>f. get_safe_filename (bracketed_host_ok e) k = Inr f \<and>
              v = pages_url (owner_login e) (repo_name e) (quote f))"
  using assms
proof (induction bs arbitrary: i w m a)
  case Nil
  then show ?case by simp
next
  case (Cons b bs)
  obtain w1 m1 a1 where s: "batch_loop e i b (w, m, a) = (w1, m1, a1)"
    by (cases "batch_loop e i b (w, m, a)")
  with Cons.prems have "batches_loop e (Suc i) n bs (pause i n w1, m1, a1) = (w', m', a')"
    by simp
  from Cons.IH [OF this Cons.prems(2)] batch_loop_entries [OF s] show ?case by blast
qed

lemma process_csv_mapping_escaped:
  assumes "process_csv e w f = (Inr out, w', attempts)"
    and "map_of (mappings_rows out) url = Some g"
  shows "\<exists>name. get_safe_filename (bracketed_host_ok e) url = Inr name \<and>
           g = ''https://'' @ owner_login e @ ''.github.io/'' @ repo_name e @ ''/images/'' @
               quote name"
proof -
  from assms(1) obtain df a b where "read_csv e f = Inr df"
    "candidates df ''Image Src'' = Inr a" "candidates df ''Variant Image'' = Inr b"
    by (auto simp: process_csv_def split: sum.splits)
  moreover obtain w1 m1 a1 where s:
    "batches_loop e 0 ((length (list_of_set (a @ b)) + BATCH_SIZE - 1) div BATCH_SIZE)
       (chunks BATCH_SIZE (list_of_set (a @ b))) (w, [], []) = (w1, m1, a1)"
    by (rule prod_cases3)
  ultimately have "mappings_rows out = m1"
    using assms(1) by (auto simp: process_csv_def Let_def)
  with assms(2) have "(url, g) \<in> set m1" by (simp add: map_of_SomeD)
  from batches_loop_entries [OF s this] show ?thesis by (simp add: pages_url_def)
qed

lemma simple_batch_entries:
  assumes "simple_batch e batch (w, m, a) = (w', m', a')" and "(k, v) \<in> set m'"
  shows "(k, v) \<in> set m \<or>
         (\<exists>f. get_safe_filename (bracketed_host_ok e) k = Inr f \<and>
              v = pages_url GITHUB_USER GITHUB_REPO_NAME f)"
  using assms
proof (induction batch arbitrary: w m a)
  case Nil
  then show ?case by simp
next
  case (Cons url batch)
  obtain r w1 where u: "simple_upload_to_github e w url = (r, w1)"
    by (cases "simple_upload_to_github e w url")
  with Cons.prems have "simple_batch e batch (w1, record_mapping r m, a @ [url]) = (w', m', a')"
    by simp
  from Cons.IH [OF this Cons.prems(2)] show ?case
  proof
    assume "(k, v) \<in> set (record_mapping r m)"
    then show ?thesis
    proof (rule record_mapping_entries [THEN disjE])
      assume "(k, v) \<in> set m" then show ?thesis by simp
    next
      assume "r = (k, Some v)"
      with u have "simple_upload_to_github e w url = ((k, Some v), w1)" by simp
      from simple_upload_to_github_success [OF this] show ?thesis by auto
    qed
  next
    assume "\<exists>f. get_safe_filename (bracketed_host_ok e) k = Inr f \<and>
              v = pages_url GITHUB_USER GITHUB_REPO_NAME f"
    then show ?thesis by simp
  qed
qed

lemma simple_batches_entries:
  assumes "simple_batches e i n bs (w, m, a) = (w', m', a')" and "(k, v) \<in> set m'"
  shows "(k, v) \<in> set m \<or>
         (\<exists>f. get_safe_filename (bracketed_host_ok e) k = Inr f \<and>
              v = pages_url GITHUB_USER GITHUB_REPO_NAME f)"
  using assms
proof (induction bs arbitrary: i w m a)
  case Nil
  then show ?case by simp
next
  case (Cons b bs)
  obtain w1 m1 a1 where s: "simple_batch e b (w, m, a) = (w1, m1, a1)"
    by (cases "simple_batch e b (w, m, a)")
  with Cons.prems have "simple_batches e (Suc i) n bs (pause i n w1, m1, a1) = (w', m', a')"
    by simp
  from Cons.IH [OF this Cons.prems(2)] simple_batch_entries [OF s] show ?case by blast
qed

lemma simple_process_csv_mapping_raw:
  assumes "simple_process_csv e w f = (Inr out, w', attempts)"
    and "map_of (mappings_rows out) url = Some g"
  shows "\<exists>name. get_safe_filename (bracketed_host_ok e) url = Inr name \<and>
           g = ''https://alex-halloran.github.io/shopify-product-images/images/'' @ name"
proof -
  from assms(1) obtain t where t: "csv_files e f = Some t"
    by (auto simp: simple_process_csv_def split: option.splits)
  obtain w1 m1 a1 where s:
    "simple_batches e 0 ((length (simple_collect t) + simple_BATCH_SIZE - 1) div simple_BATCH_SIZE)
       (chunks simple_BATCH_SIZE (simple_collect t)) (w, [], []) = (w1, m1, a1)"
    by (rule prod_cases3)
  with t have "mappings_rows out = m1"
    using assms(1) by (auto simp: simple_process_csv_def Let_def split: option.splits if_splits)
  with assms(2) have "(url, g) \<in> set m1" by (simp add: map_of_SomeD)
  from simple_batches_entries [OF s this] show ?thesis
    by (simp add: pages_url_def GITHUB_USER_def GITHUB_REPO_NAME_def)
qed

text \<open>
  Claim C5. The entry of the mapping for a published URL is the public URL of the
  percent-escaped asset name. At the share link of \<^verbatim>\<open>my photo.jpg\<close>, whose asset name
  is \<^verbatim>\<open>my photo.jpg\<close> and escapes to \<^verbatim>\<open>my%20photo.jpg\<close>, the mapping that
  \<^verbatim>\<open>simple_upload.py\<close> writes holds the name as it is, with its space, while the mapping
  that \<^verbatim>\<open>dropbox_to_github.py\<close> writes holds the escaped name.
\<close>

theorem simple_upload_url_not_escaped:
  "get_safe_filename unchecked_host ''https://www.dropbox.com/s/abc/my photo.jpg?dl=0'' =
     Inr ''my photo.jpg'' \<and>
   quote ''my photo.jpg'' = ''my%20photo.jpg'' \<and>
   map_option mappings_rows (written (fst (simple_main
       (test_env (serving [(''https://www.dropbox.com/s/abc/my photo.jpg?dl=1'', ''IMG'')])
          (always Healthy)
          \<lparr>header = Some [''Handle'', ''Image Src''],
           records = [[''shirt'', ''https://www.dropbox.com/s/abc/my photo.jpg?dl=0'']]\<rparr>
          no_frame)
       empty_world [''simple_upload.py'', ''products.csv'']))) =
     Some [(''https://www.dropbox.com/s/abc/my photo.jpg?dl=0'',
            ''https://alex-halloran.github.io/shopify-product-images/images/my photo.jpg'')] \<and>
   map_option mappings_rows (written (fst (main
       (test_env (serving [(''https://www.dropbox.com/s/abc/my photo.jpg?dl=1'', ''IMG'')])
          (always Healthy) no_table
          \<lparr>columns = [''Handle'', ''Image Src''],
           frame_rows = [[Str ''shirt'', Str ''https://www.dropbox.com/s/abc/my photo.jpg?dl=0'']]\<rparr>)
       empty_world [''dropbox_to_github.py'', ''products.csv'']))) =
     Some [(''https://www.dropbox.com/s/abc/my photo.jpg?dl=0'',
            ''https://alex-halloran.github.io/shopify-product-images/images/my%20photo.jpg'')]"
  by code_simp

subsection \<open>The rewritten table\<close>

lemma index_less: "c \<in> set xs \<Longrightarrow> length (takeWhile (\<lambda>x. x \<noteq> c) xs) < length xs"
  by (induction xs) auto

lemma index_nth: "c \<in> set xs \<Longrightarrow> xs ! length (takeWhile (\<lambda>x. x \<noteq> c) xs) = c"
  by (induction xs) auto

lemma index_append_new:
  "c \<notin> set xs \<Longrightarrow> length (takeWhile (\<lambda>x. x \<noteq> c) (xs @ [c])) = length xs"
  by (induction xs) auto

lemma index_append_old:
  "c \<in> set xs \<Longrightarrow> takeWhile (\<lambda>x. x \<noteq> c) (xs @ ys) = takeWhile (\<lambda>x. x \<noteq> c) xs"
  by (induction xs) auto

lemma length_column: "length (column df c) = length (frame_rows df)"
  by (simp add: column_def)

lemma columns_set_column:
  "columns (set_column df n vals) =
     (if n \<in> set (columns df) then columns df else columns df @ [n])"
  by (simp add: set_column_def)

lemma rows_set_column:
  "length vals = length (frame_rows df) \<Longrightarrow>
   length (frame_rows (set_column df n vals)) = length (frame_rows df)"
  by (simp add: set_column_def)

lemma map_zip_snd: "length xs = length ys \<Longrightarrow> map (\<lambda>(x, y). y) (zip xs ys) = ys"
  by (induction xs ys rule: list_induct2) simp_all

lemma map_zip_fst: "length xs = length ys \<Longrightarrow> map (\<lambda>(x, y). f x) (zip xs ys) = map f xs"
  by (induction xs ys rule: list_induct2) simp_all

lemma map_zip_cong:
  "(\<And>x y. x \<in> set xs \<Longrightarrow> f x y = g x y) \<Longrightarrow>
   map (\<lambda>(x, y). f x y) (zip xs ys) = map (\<lambda>(x, y). g x y) (zip xs ys)"
  by (auto dest: set_zip_leftD)

lemma wf_set_column:
  assumes "\<forall>r \<in> set (frame_rows df). length r = length (columns df)"
  shows "\<forall>r \<in> set (frame_rows (set_column df n vals)).
           length r = length (columns (set_column df n vals))"
  using assms by (auto simp: set_column_def dest: set_zip_leftD)

lemma column_set_column_same:
  assumes wf: "\<forall>r \<in> set (frame_rows df). length r = length (columns df)"
    and len: "length vals = length (frame_rows df)"
  shows "column (set_column df n vals) n = vals"
proof (rule nth_equalityI)
  show "length (column (set_column df n vals) n) = length vals"
    using len by (simp add: length_column rows_set_column)
  fix k assume "k < length (column (set_column df n vals) n)"
  with len have k: "k < length (frame_rows df)" by (simp add: length_column rows_set_column)
  then have "frame_rows df ! k \<in> set (frame_rows df)" by simp
  with wf have l: "length (frame_rows df ! k) = length (columns df)" by blast
  show "column (set_column df n vals) n ! k = vals ! k"
  proof (cases "n \<in> set (columns df)")
    case True
    with k len l index_less [OF True] show ?thesis
      by (simp add: column_def set_column_def cell_at_def)
  next
    case False
    with k len l show ?thesis
      by (simp add: column_def set_column_def cell_at_def index_append_new nth_append)
  qed
qed

lemma column_set_column_other:
  assumes wf: "\<forall>r \<in> set (frame_rows df). length r = length (columns df)"
    and len: "length vals = length (frame_rows df)"
    and c: "c \<in> set (columns df)" and ne: "c \<noteq> n"
  shows "column (set_column df n vals) c = column df c"
proof (rule nth_equalityI)
  show "length (column (set_column df n vals) c) = length (column df c)"
    using len by (simp add: length_column rows_set_column)
  fix k assume "k < length (column (set_column df n vals) c)"
  with len have k: "k < length (frame_rows df)" by (simp add: length_column rows_set_column)
  then have "frame_rows df ! k \<in> set (frame_rows df)" by simp
  with wf have l: "length (frame_rows df ! k) = length (columns df)" by blast
  show "column (set_column df n vals) c ! k = column df c ! k"
  proof (cases "n \<in> set (columns df)")
    case True
    from index_nth [OF True] index_nth [OF c] ne
    have "length (takeWhile (\<lambda>x. x \<noteq> n) (columns df)) \<noteq>
          length (takeWhile (\<lambda>x. x \<noteq> c) (columns df))"
      by auto
    with True k len l show ?thesis
      by (simp add: column_def set_column_def cell_at_def)
  next
    case False
    with k len l c index_less [OF c] show ?thesis
      by (simp add: column_def set_column_def cell_at_def index_append_old nth_append)
  qed
qed

lemma rewrite_frame_columns:
  assumes wf: "\<forall>r \<in> set (frame_rows df). length r = length (columns df)"
  shows "(''Image Src'' \<in> set (columns df) \<longrightarrow>
            column (rewrite_frame m df) ''GitHub_Image_Src'' =
              map (mapped_cell m) (column df ''Image Src'')) \<and>
         (''Variant Image'' \<in> set (columns df) \<longrightarrow>
            column (rewrite_frame m df) ''GitHub_Variant_Image'' =
              map (mapped_cell m) (column df ''Variant Image'')) \<and>
         length (frame_rows (rewrite_frame m df)) = length (frame_rows df) \<and>
         (\<forall>r \<in> set (frame_rows (rewrite_frame m df)).
            length r = length (columns (rewrite_frame m df)))"
proof -
  define df1 where "df1 = (if ''Image Src'' \<in> set (columns df)
                 then set_column df ''GitHub_Image_Src''
                        (map (mapped_cell m) (column df ''Image Src''))
                 else df)"
  have rf: "rewrite_frame m df = (if ''Variant Image'' \<in> set (columns df1)
         then set_column df1 ''GitHub_Variant_Image''
                (map (mapped_cell m) (column df1 ''Variant Image''))
         else df1)"
    by (simp add: rewrite_frame_def df1_def Let_def)
  have wf1: "\<forall>r \<in> set (frame_rows df1). length r = length (columns df1)"
    unfolding df1_def using wf wf_set_column [OF wf] by simp
  have len1: "length (frame_rows df1) = length (frame_rows df)"
    by (simp add: df1_def rows_set_column length_column)
  have g1: "column df1 ''GitHub_Image_Src'' = map (mapped_cell m) (column df ''Image Src'')"
    and in1: "''GitHub_Image_Src'' \<in> set (columns df1)"
    if "''Image Src'' \<in> set (columns df)"
    using that by (simp_all add: df1_def column_set_column_same [OF wf] length_column
        columns_set_column)
  have v1: "column df1 ''Variant Image'' = column df ''Variant Image''"
    and vin1: "''Variant Image'' \<in> set (columns df1)"
    if "''Variant Image'' \<in> set (columns df)"
    using that by (simp_all add: df1_def column_set_column_other [OF wf] length_column
        columns_set_column)
  have a: "column (rewrite_frame m df) ''GitHub_Image_Src'' =
              map (mapped_cell m) (column df ''Image Src'')"
    if "''Image Src'' \<in> set (columns df)"
    using g1 [OF that] in1 [OF that]
    by (simp add: rf column_set_column_other [OF wf1] length_column)
  have b: "column (rewrite_frame m df) ''GitHub_Variant_Image'' =
              map (mapped_cell m) (column df ''Variant Image'')"
    if "''Variant Image'' \<in> set (columns df)"
    using v1 [OF that] vin1 [OF that]
    by (simp add: rf column_set_column_same [OF wf1] length_column len1)
  have c: "length (frame_rows (rewrite_frame m df)) = length (frame_rows df)"
    by (simp add: rf rows_set_column length_column len1)
  have d: "\<forall>r \<in> set (frame_rows (rewrite_frame m df)).
            length r = length (columns (rewrite_frame m df))"
    unfolding rf using wf1 wf_set_column [OF wf1] by simp
  from a b c d show ?thesis by blast
qed

lemma simple_rewrite_row_columns:
  "length (simple_rewrite_row m fs r) = length fs + 2 \<and>
   simple_rewrite_row m fs r ! length fs =
     (case dict_row fs r ''Image Src'' of
        Some (Str v) \<Rightarrow> (case map_of m v of Some g \<Rightarrow> g | None \<Rightarrow> [])
      | Some Missing \<Rightarrow> []
      | None \<Rightarrow> []) \<and>
   simple_rewrite_row m fs r ! Suc (length fs) =
     (case dict_row fs r ''Variant Image'' of
        Some (Str v) \<Rightarrow> (case map_of m v of Some g \<Rightarrow> g | None \<Rightarrow> [])
      | Some Missing \<Rightarrow> []
      | None \<Rightarrow> [])"
  by (simp add: simple_rewrite_row_def Let_def write_row_def simple_lookup_def nth_append)

lemma columns_rewrite_frame:
  "set (columns (rewrite_frame m df)) =
     set (columns df) \<union>
     (if ''Image Src'' \<in> set (columns df) then {''GitHub_Image_Src''} else {}) \<union>
     (if ''Variant Image'' \<in> set (columns df) then {''GitHub_Variant_Image''} else {})"
  by (auto simp: rewrite_frame_def Let_def columns_set_column)

lemma to_csv_mapped_cell:
  "(case mapped_cell m x of Str s \<Rightarrow> s | Missing \<Rightarrow> []) =
   (case x of Str v \<Rightarrow> (case map_of m v of Some g \<Rightarrow> g | None \<Rightarrow> v) | Missing \<Rightarrow> [])"
  by (simp add: mapped_cell_def split: cell.splits option.splits)

lemma written_cell:
  assumes wf: "\<forall>r \<in> set (frame_rows df). length r = length (columns df)"
    and c: "c \<in> set (columns df)" and i: "i < length (frame_rows df)"
  shows "map to_csv_row (frame_rows df) ! i ! length (takeWhile (\<lambda>x. x \<noteq> c) (columns df)) =
         (case column df c ! i of Str s \<Rightarrow> s | Missing \<Rightarrow> [])"
proof -
  from i have "frame_rows df ! i \<in> set (frame_rows df)" by simp
  with wf have "length (frame_rows df ! i) = length (columns df)" by blast
  with index_less [OF c] i show ?thesis
    by (simp add: to_csv_row_def column_def cell_at_def)
qed

lemma simple_process_csv_output:
  assumes "simple_process_csv e w f = (Inr out, w', a)"
  shows "\<exists>t fs. csv_files e f = Some t \<and> header t = Some fs \<and>
           out_header out = fs @ [''GitHub_Image_Src'', ''GitHub_Variant_Image''] \<and>
           out_rows out = map (simple_rewrite_row (mappings_rows out) fs) (records t)"
proof -
  from assms obtain t where t: "csv_files e f = Some t"
    by (auto simp: simple_process_csv_def split: option.splits)
  obtain w1 m1 a1 where s:
    "simple_batches e 0 ((length (simple_collect t) + simple_BATCH_SIZE - 1) div simple_BATCH_SIZE)
       (chunks simple_BATCH_SIZE (simple_collect t)) (w, [], []) = (w1, m1, a1)"
    by (rule prod_cases3)
  from assms t s obtain fs where "header t = Some fs"
    by (cases "header t") (auto simp: simple_process_csv_def Let_def)
  with assms t s show ?thesis
    by (auto simp: simple_process_csv_def Let_def split: if_splits)
qed

lemma process_csv_output:
  assumes "process_csv e w f = (Inr out, w', a)" and "read_csv e f = Inr df"
  shows "out_header out = columns (rewrite_frame (mappings_rows out) df) \<and>
         out_rows out = map to_csv_row (frame_rows (rewrite_frame (mappings_rows out) df))"
proof -
  from assms obtain x y where "candidates df ''Image Src'' = Inr x"
    "candidates df ''Variant Image'' = Inr y"
    by (auto simp: process_csv_def split: sum.splits)
  moreover obtain w1 m1 a1 where
    "batches_loop e 0 ((length (list_of_set (x @ y)) + BATCH_SIZE - 1) div BATCH_SIZE)
       (chunks BATCH_SIZE (list_of_set (x @ y))) (w, [], []) = (w1, m1, a1)"
    by (rule prod_cases3)
  ultimately show ?thesis using assms by (auto simp: process_csv_def Let_def)
qed

text \<open>
  Claim C6, as the code has it. \<^verbatim>\<open>simple_upload.py\<close> appends the two columns to every
  row: each holds the mapped URL when the cell of its source column is a key of the
  mapping, and nothing otherwise. \<^verbatim>\<open>dropbox_to_github.py\<close> keeps the number of rows and
  sets a new column exactly for a source column the table has: it holds the mapped URL
  when the cell is a key of the mapping, the cell itself when it is a string that is not
  a key, and nothing when the cell is missing.
\<close>

theorem rewritten_columns:
  "(simple_process_csv e w f = (Inr out, w', a) \<longrightarrow>
      (\<exists>t fs. csv_files e f = Some t \<and> header t = Some fs \<and>
         out_header out = fs @ [''GitHub_Image_Src'', ''GitHub_Variant_Image''] \<and>
         length (out_rows out) = length (records t) \<and>
         (\<forall>i<length (records t).
            length (out_rows out ! i) = length fs + 2 \<and>
            out_rows out ! i ! length fs =
              (case dict_row fs (records t ! i) ''Image Src'' of
                 Some (Str v) \<Rightarrow>
                   (case map_of (mappings_rows out) v of Some g \<Rightarrow> g | None \<Rightarrow> [])
               | Some Missing \<Rightarrow> []
               | None \<Rightarrow> []) \<and>
            out_rows out ! i ! Suc (length fs) =
              (case dict_row fs (records t ! i) ''Variant Image'' of
                 Some (Str v) \<Rightarrow>
                   (case map_of (mappings_rows out) v of Some g \<Rightarrow> g | None \<Rightarrow> [])
               | Some Missing \<Rightarrow> []
               | None \<Rightarrow> [])))) \<and>
   (process_csv e w f = (Inr out, w', a) \<and> read_csv e f = Inr df \<and>
    (\<forall>r \<in> set (frame_rows df). length r = length (columns df)) \<longrightarrow>
      length (out_rows out) = length (frame_rows df) \<and>
      (''GitHub_Image_Src'' \<in> set (out_header out) \<longleftrightarrow>
         ''Image Src'' \<in> set (columns df) \<or> ''GitHub_Image_Src'' \<in> set (columns df)) \<and>
      (''GitHub_Variant_Image'' \<in> set (out_header out) \<longleftrightarrow>
         ''Variant Image'' \<in> set (columns df) \<or> ''GitHub_Variant_Image'' \<in> set (columns df)) \<and>
      (''Image Src'' \<in> set (columns df) \<longrightarrow>
         (\<forall>i<length (frame_rows df).
            out_rows out ! i !
              length (takeWhile (\<lambda>x. x \<noteq> ''GitHub_Image_Src'') (out_header out)) =
              (case cell_at (frame_rows df ! i)
                      (length (takeWhile (\<lambda>x. x \<noteq> ''Image Src'') (columns df))) of
                 Str v \<Rightarrow> (case map_of (mappings_rows out) v of Some g \<Rightarrow> g | None \<Rightarrow> v)
               | Missing \<Rightarrow> []))) \<and>
      (''Variant Image'' \<in> set (columns df) \<longrightarrow>
         (\<forall>i<length (frame_rows df).
            out_rows out ! i !
              length (takeWhile (\<lambda>x. x \<noteq> ''GitHub_Variant_Image'') (out_header out)) =
              (case cell_at (frame_rows df ! i)
                      (length (takeWhile (\<lambda>x. x \<noteq> ''Variant Image'') (columns df))) of
                 Str v \<Rightarrow> (case map_of (mappings_rows out) v of Some g \<Rightarrow> g | None \<Rightarrow> v)
               | Missing \<Rightarrow> []))))"
proof (rule conjI; rule impI)
  assume "simple_process_csv e w f = (Inr out, w', a)"
  from simple_process_csv_output [OF this] obtain t fs where
    t: "csv_files e f = Some t" "header t = Some fs"
    "out_header out = fs @ [''GitHub_Image_Src'', ''GitHub_Variant_Image'']"
    and rows: "out_rows out = map (simple_rewrite_row (mappings_rows out) fs) (records t)"
    by blast
  have "length (out_rows out ! i) = length fs + 2 \<and>
        out_rows out ! i ! length fs =
          (case dict_row fs (records t ! i) ''Image Src'' of
             Some (Str v) \<Rightarrow>
               (case map_of (mappings_rows out) v of Some g \<Rightarrow> g | None \<Rightarrow> [])
           | Some Missing \<Rightarrow> []
           | None \<Rightarrow> []) \<and>
        out_rows out ! i ! Suc (length fs) =
          (case dict_row fs (records t ! i) ''Variant Image'' of
             Some (Str v) \<Rightarrow>
               (case map_of (mappings_rows out) v of Some g \<Rightarrow> g | None \<Rightarrow> [])
           | Some Missing \<Rightarrow> []
           | None \<Rightarrow> [])"
    if "i < length (records t)" for i
    using that simple_rewrite_row_columns [of "mappings_rows out" fs "records t ! i"]
    by (simp only: rows nth_map)
  with t rows show "\<exists>t fs. csv_files e f = Some t \<and> header t = Some fs \<and>
         out_header out = fs @ [''GitHub_Image_Src'', ''GitHub_Variant_Image''] \<and>
         length (out_rows out) = length (records t) \<and>
         (\<forall>i<length (records t).
            length (out_rows out ! i) = length fs + 2 \<and>
            out_rows out ! i ! length fs =
              (case dict_row fs (records t ! i) ''Image Src'' of
                 Some (Str v) \<Rightarrow>
                   (case map_of (mappings_rows out) v of Some g \<Rightarrow> g | None \<Rightarrow> [])
               | Some Missing \<Rightarrow> []
               | None \<Rightarrow> []) \<and>
            out_rows out ! i ! Suc (length fs) =
              (case dict_row fs (records t ! i) ''Variant Image'' of
                 Some (Str v) \<Rightarrow>
                   (case map_of (mappings_rows out) v of Some g \<Rightarrow> g | None \<Rightarrow> [])
               | Some Missing \<Rightarrow> []
               | None \<Rightarrow> []))"
    by (intro exI [of _ t] exI [of _ fs]) simp
next
  assume h: "process_csv e w f = (Inr out, w', a) \<and> read_csv e f = Inr df \<and>
    (\<forall>r \<in> set (frame_rows df). length r = length (columns df))"
  then have p: "process_csv e w f = (Inr out, w', a)" and r: "read_csv e f = Inr df"
    and wf: "\<forall>r \<in> set (frame_rows df). length r = length (columns df)"
    by blast+
  define m where "m = mappings_rows out"
  define df' where "df' = rewrite_frame m df"
  from process_csv_output [OF p r]
  have hd: "out_header out = columns df'" and rw: "out_rows out = map to_csv_row (frame_rows df')"
    by (simp_all add: df'_def m_def)
  note rf = rewrite_frame_columns [OF wf, of m, folded df'_def]
  from rf have len: "length (frame_rows df') = length (frame_rows df)"
    and wf': "\<forall>r \<in> set (frame_rows df'). length r = length (columns df')"
    by blast+
  have cols: "set (columns df') =
     set (columns df) \<union>
     (if ''Image Src'' \<in> set (columns df) then {''GitHub_Image_Src''} else {}) \<union>
     (if ''Variant Image'' \<in> set (columns df) then {''GitHub_Variant_Image''} else {})"
    unfolding df'_def by (rule columns_rewrite_frame)
  have a1: "''GitHub_Image_Src'' \<in> set (out_header out) \<longleftrightarrow>
         ''Image Src'' \<in> set (columns df) \<or> ''GitHub_Image_Src'' \<in> set (columns df)"
    unfolding hd cols by auto
  have a2: "''GitHub_Variant_Image'' \<in> set (out_header out) \<longleftrightarrow>
         ''Variant Image'' \<in> set (columns df) \<or> ''GitHub_Variant_Image'' \<in> set (columns df)"
    unfolding hd cols by auto
  have b1: "out_rows out ! i !
              length (takeWhile (\<lambda>x. x \<noteq> ''GitHub_Image_Src'') (out_header out)) =
              (case cell_at (frame_rows df ! i)
                      (length (takeWhile (\<lambda>x. x \<noteq> ''Image Src'') (columns df))) of
                 Str v \<Rightarrow> (case map_of (mappings_rows out) v of Some g \<Rightarrow> g | None \<Rightarrow> v)
               | Missing \<Rightarrow> [])"
    if c: "''Image Src'' \<in> set (columns df)" and i: "i < length (frame_rows df)" for i
  proof -
    from c a1 hd have g: "''GitHub_Image_Src'' \<in> set (columns df')" by simp
    from i len have i': "i < length (frame_rows df')" by simp
    from rf c have "column df' ''GitHub_Image_Src'' = map (mapped_cell m) (column df ''Image Src'')"
      by blast
    with i have "column df' ''GitHub_Image_Src'' ! i =
        mapped_cell m (cell_at (frame_rows df ! i)
                         (length (takeWhile (\<lambda>x. x \<noteq> ''Image Src'') (columns df))))"
      by (simp add: column_def)
    with written_cell [OF wf' g i'] show ?thesis
      unfolding hd rw by (simp add: to_csv_mapped_cell m_def)
  qed
  have b2: "out_rows out ! i !
              length (takeWhile (\<lambda>x. x \<noteq> ''GitHub_Variant_Image'') (out_header out)) =
              (case cell_at (frame_rows df ! i)
                      (length (takeWhile (\<lambda>x. x \<noteq> ''Variant Image'') (columns df))) of
                 Str v \<Rightarrow> (case map_of (mappings_rows out) v of Some g \<Rightarrow> g | None \<Rightarrow> v)
               | Missing \<Rightarrow> [])"
    if c: "''Variant Image'' \<in> set (columns df)" and i: "i < length (frame_rows df)" for i
  proof -
    from c a2 hd have g: "''GitHub_Variant_Image'' \<in> set (columns df')" by simp
    from i len have i': "i < length (frame_rows df')" by simp
    from rf c have "column df' ''GitHub_Variant_Image'' =
        map (mapped_cell m) (column df ''Variant Image'')"
      by blast
    with i have "column df' ''GitHub_Variant_Image'' ! i =
        mapped_cell m (cell_at (frame_rows df ! i)
                         (length (takeWhile (\<lambda>x. x \<noteq> ''Variant Image'') (columns df))))"
      by (simp add: column_def)
    with written_cell [OF wf' g i'] show ?thesis
      unfolding hd rw by (simp add: to_csv_mapped_cell m_def)
  qed
  have l: "length (out_rows out) = length (frame_rows df)" by (simp add: rw len)
  from l a1 a2 b1 b2
  show "length (out_rows out) = length (frame_rows df) \<and>
      (''GitHub_Image_Src'' \<in> set (out_header out) \<longleftrightarrow>
         ''Image Src'' \<in> set (columns df) \<or> ''GitHub_Image_Src'' \<in> set (columns df)) \<and>
      (''GitHub_Variant_Image'' \<in> set (out_header out) \<longleftrightarrow>
         ''Variant Image'' \<in> set (columns df) \<or> ''GitHub_Variant_Image'' \<in> set (columns df)) \<and>
      (''Image Src'' \<in> set (columns df) \<longrightarrow>
         (\<forall>i<length (frame_rows df).
            out_rows out ! i !
              length (takeWhile (\<lambda>x. x \<noteq> ''GitHub_Image_Src'') (out_header out)) =
              (case cell_at (frame_rows df ! i)
                      (length (takeWhile (\<lambda>x. x \<noteq> ''Image Src'') (columns df))) of
                 Str v \<Rightarrow> (case map_of (mappings_rows out) v of Some g \<Rightarrow> g | None \<Rightarrow> v)
               | Missing \<Rightarrow> []))) \<and>
      (''Variant Image'' \<in> set (columns df) \<longrightarrow>
         (\<forall>i<length (frame_rows df).
            out_rows out ! i !
              length (takeWhile (\<lambda>x. x \<noteq> ''GitHub_Variant_Image'') (out_header out)) =
              (case cell_at (frame_rows df ! i)
                      (length (takeWhile (\<lambda>x. x \<noteq> ''Variant Image'') (columns df))) of
                 Str v \<Rightarrow> (case map_of (mappings_rows out) v of Some g \<Rightarrow> g | None \<Rightarrow> v)
               | Missing \<Rightarrow> [])))"
    by (intro conjI impI allI)
qed

text \<open>
  The theorem at a table of two rows, the first with a share link that is published, the
  second with a link to another host.
\<close>

theorem rewritten_columns_witness:
  "(\<exists>out. fst (simple_process_csv
       (test_env (serving [(''https://www.dropbox.com/s/abc/photo.jpg?dl=1'', ''IMG'')])
          (always Healthy)
          \<lparr>header = Some [''Handle'', ''Image Src'', ''Variant Image''],
           records = [[''shirt'', ''https://www.dropbox.com/s/abc/photo.jpg?dl=0'', ''''],
                      [''hat'', ''https://example.com/b.jpg'', '''']]\<rparr>
          no_frame)
       empty_world ''products.csv'') = Inr out \<and>
     out_rows out ! 0 ! 3 =
       ''https://alex-halloran.github.io/shopify-product-images/images/photo.jpg'' \<and>
     out_rows out ! 1 ! 3 = '''') \<and>
   (\<exists>out. fst (process_csv
       (test_env (serving [(''https://www.dropbox.com/s/abc/photo.jpg?dl=1'', ''IMG'')])
          (always Healthy) no_table
          \<lparr>columns = [''Handle'', ''Image Src'', ''Variant Image''],
           frame_rows = [[Str ''shirt'', Str ''https://www.dropbox.com/s/abc/photo.jpg?dl=0'',
                          Str ''https://example.com/c.jpg''],
                         [Str ''hat'', Str ''https://example.com/b.jpg'', Missing]]\<rparr>)
       empty_world ''products.csv'') = Inr out \<and>
     out_rows out ! 0 ! 3 =
       ''https://alex-halloran.github.io/shopify-product-images/images/photo.jpg'' \<and>
     out_rows out ! 1 ! 3 = ''https://example.com/b.jpg'')"
proof -
  let ?u = "''https://www.dropbox.com/s/abc/photo.jpg?dl=0''"
  let ?g = "''https://alex-halloran.github.io/shopify-product-images/images/photo.jpg''"
  let ?fs = "[''Handle'', ''Image Src'', ''Variant Image'']"
  let ?t = "\<lparr>header = Some ?fs,
           records = [[''shirt'', ?u, ''''], [''hat'', ''https://example.com/b.jpg'', '''']]\<rparr>"
  let ?df = "\<lparr>columns = ?fs,
           frame_rows = [[Str ''shirt'', Str ?u, Str ''https://example.com/c.jpg''],
                         [Str ''hat'', Str ''https://example.com/b.jpg'', Missing]]\<rparr>"
  let ?h = "serving [(''https://www.dropbox.com/s/abc/photo.jpg?dl=1'', ''IMG'')]"
  let ?e = "test_env ?h (always Healthy) ?t no_frame"
  let ?e' = "test_env ?h (always Healthy) no_table ?df"
  let ?r = "simple_process_csv ?e empty_world ''products.csv''"
  let ?r' = "process_csv ?e' empty_world ''products.csv''"
  have c: "csv_files ?e ''products.csv'' = Some ?t" by (simp add: test_env_def)
  have "(case fst ?r of Inl x \<Rightarrow> None | Inr out \<Rightarrow> Some (mappings_rows out)) = Some [(?u, ?g)]"
    by code_simp
  then obtain out where o: "fst ?r = Inr out" and m: "mappings_rows out = [(?u, ?g)]"
    by (cases "fst ?r") simp_all
  from o have p: "?r = (Inr out, fst (snd ?r), snd (snd ?r))" by (simp add: prod_eq_iff)
  from rewritten_columns
         [where e = ?e and f = "''products.csv''" and w = empty_world and out = out
            and w' = "fst (snd ?r)" and a = "snd (snd ?r)",
          THEN conjunct1, THEN mp, OF p]
  obtain t fs where t: "csv_files ?e ''products.csv'' = Some t" and fs: "header t = Some fs"
    and rows: "\<forall>i<length (records t).
            length (out_rows out ! i) = length fs + 2 \<and>
            out_rows out ! i ! length fs =
              (case dict_row fs (records t ! i) ''Image Src'' of
                 Some (Str v) \<Rightarrow>
                   (case map_of (mappings_rows out) v of Some g \<Rightarrow> g | None \<Rightarrow> [])
               | Some Missing \<Rightarrow> []
               | None \<Rightarrow> []) \<and>
            out_rows out ! i ! Suc (length fs) =
              (case dict_row fs (records t ! i) ''Variant Image'' of
                 Some (Str v) \<Rightarrow>
                   (case map_of (mappings_rows out) v of Some g \<Rightarrow> g | None \<Rightarrow> [])
               | Some Missing \<Rightarrow> []
               | None \<Rightarrow> [])"
    by blast
  from t c have t': "t = ?t" by simp
  with fs have fs': "fs = ?fs" by simp
  have d0: "dict_row ?fs (records ?t ! 0) ''Image Src'' = Some (Str ?u)" by code_simp
  have d1: "dict_row ?fs (records ?t ! 1) ''Image Src'' = Some (Str ''https://example.com/b.jpg'')"
    by code_simp
  have l: "length ?fs = 3" by simp
  have k0: "map_of [(?u, ?g)] ?u = Some ?g" by simp
  have k1: "map_of [(?u, ?g)] ''https://example.com/b.jpg'' = None" by code_simp
  from rows [rule_format, of 0] have "out_rows out ! 0 ! 3 = ?g"
    unfolding t' fs' m d0 l k0 by simp
  moreover from rows [rule_format, of 1] have "out_rows out ! 1 ! 3 = []"
    unfolding t' fs' m d1 l k1 by simp
  ultimately have one: "\<exists>out. fst ?r = Inr out \<and> out_rows out ! 0 ! 3 = ?g \<and>
      out_rows out ! 1 ! 3 = ''''"
    using o by blast
  have c': "read_csv ?e' ''products.csv'' = Inr ?df" by (simp add: test_env_def)
  have wf: "\<forall>r \<in> set (frame_rows ?df). length r = length (columns ?df)" by simp
  have "(case fst ?r' of Inl x \<Rightarrow> None | Inr out \<Rightarrow> Some (mappings_rows out, out_header out)) =
        Some ([(?u, ?g)], ?fs @ [''GitHub_Image_Src'', ''GitHub_Variant_Image''])"
    by code_simp
  then obtain out' where o': "fst ?r' = Inr out'" and m': "mappings_rows out' = [(?u, ?g)]"
    and h': "out_header out' = ?fs @ [''GitHub_Image_Src'', ''GitHub_Variant_Image'']"
    by (cases "fst ?r'") simp_all
  from o' have p': "?r' = (Inr out', fst (snd ?r'), snd (snd ?r'))" by (simp add: prod_eq_iff)
  have i: "''Image Src'' \<in> set (columns ?df)" by simp
  from rewritten_columns
         [where e = ?e' and f = "''products.csv''" and w = empty_world and out = out'
            and w' = "fst (snd ?r')" and a = "snd (snd ?r')" and df = ?df,
          THEN conjunct2, THEN mp, OF conjI [OF p' conjI [OF c' wf]]] i
  have rows': "\<forall>i<length (frame_rows ?df).
            out_rows out' ! i !
              length (takeWhile (\<lambda>x. x \<noteq> ''GitHub_Image_Src'') (out_header out')) =
              (case cell_at (frame_rows ?df ! i)
                      (length (takeWhile (\<lambda>x. x \<noteq> ''Image Src'') (columns ?df))) of
                 Str v \<Rightarrow> (case map_of (mappings_rows out') v of Some g \<Rightarrow> g | None \<Rightarrow> v)
               | Missing \<Rightarrow> [])"
    by (elim conjE) (rule mp)
  have n: "length (takeWhile (\<lambda>x. x \<noteq> ''GitHub_Image_Src'')
             (?fs @ [''GitHub_Image_Src'', ''GitHub_Variant_Image''])) = 3"
    by code_simp
  have e0: "cell_at (frame_rows ?df ! 0)
              (length (takeWhile (\<lambda>x. x \<noteq> ''Image Src'') (columns ?df))) = Str ?u"
    by code_simp
  have e1: "cell_at (frame_rows ?df ! 1)
              (length (takeWhile (\<lambda>x. x \<noteq> ''Image Src'') (columns ?df))) =
            Str ''https://example.com/b.jpg''"
    by code_simp
  from rows' [rule_format, of 0] have "out_rows out' ! 0 ! 3 = ?g"
    unfolding h' n m' e0 k0 by simp
  moreover from rows' [rule_format, of 1] have "out_rows out' ! 1 ! 3 = ''https://example.com/b.jpg''"
    unfolding h' n m' e1 k1 by simp
  ultimately have two: "\<exists>out. fst ?r' = Inr out \<and> out_rows out ! 0 ! 3 = ?g \<and>
      out_rows out ! 1 ! 3 = ''https://example.com/b.jpg''"
    using o' by blast
  from one two show ?thesis by (rule conjI)
qed

text \<open>
  Claim C6 as stated fails for \<^verbatim>\<open>dropbox_to_github.py\<close>: a cell that is not a key of
  the mapping is copied into the new column, which is not empty then; and the column for
  \<^verbatim>\<open>Variant Image\<close> is not added to a table without that column.
\<close>

theorem rewritten_unmapped_counterexample:
  "fst (process_csv
       (test_env (serving []) (always Healthy) no_table
          \<lparr>columns = [''Handle'', ''Image Src''],
           frame_rows = [[Str ''hat'', Str ''https://example.com/b.jpg'']]\<rparr>)
       empty_world ''products.csv'') =
   Inr \<lparr>output_csv = ''products_with_github_urls.csv'',
        out_header = [''Handle'', ''Image Src'', ''GitHub_Image_Src''],
        out_rows = [[''hat'', ''https://example.com/b.jpg'', ''https://example.com/b.jpg'']],
        mappings_rows = []\<rparr>"
  by code_simp

section \<open>Properties of the entry points\<close>

lemma simple_main_usage:
  "length argv \<noteq> 2 \<Longrightarrow>
   simple_main e w argv =
     (\<lparr>ending = Exit 1,
       stdout = [''Usage: python simple_upload.py your_shopify_import.csv''],
       written = None\<rparr>, w, [])"
  by (simp add: simple_main_def)

lemma simple_main_exit_zero:
  "length argv = 2 \<Longrightarrow> simple_process_csv e w (argv ! 1) = (Inr out, w', a) \<Longrightarrow>
   exit_status (ending (fst (simple_main e w argv))) = 0"
  by (simp add: simple_main_def exit_status_def)

lemma simple_process_csv_completes:
  assumes "csv_files e f = Some t" and "header t = Some fs"
    and "\<not> list_ex (\<lambda>r. length fs < length r) (records t)"
  shows "\<exists>out w' a. simple_process_csv e w f = (Inr out, w', a)"
proof -
  obtain w1 m1 a1 where
    "simple_batches e 0 ((length (simple_collect t) + simple_BATCH_SIZE - 1) div simple_BATCH_SIZE)
       (chunks simple_BATCH_SIZE (simple_collect t)) (w, [], []) = (w1, m1, a1)"
    by (rule prod_cases3)
  with assms show ?thesis by (simp add: simple_process_csv_def Let_def)
qed

lemma main_usage_after_init:
  "module_init e w = (Inr u, w0) \<Longrightarrow> length argv \<noteq> 2 \<Longrightarrow>
   main e w argv =
     (\<lparr>ending = Exit 1,
       stdout = [''Usage: python dropbox_to_github.py your_shopify_import.csv''],
       written = None\<rparr>, w0, [])"
  by (simp add: main_def)

lemma main_init_failure:
  "module_init e w = (Inl x, w0) \<Longrightarrow>
   main e w argv = (\<lparr>ending = Uncaught x, stdout = [], written = None\<rparr>, w0, [])"
  by (simp add: main_def)

lemma module_init_first_call:
  "api_fault e (clock w) \<noteq> Healthy \<Longrightarrow> module_init e w = (Inl GithubException, tick w)"
  by (cases "api_fault e (clock w)") (simp_all add: module_init_def api_call_def)

lemma main_exit_zero:
  "module_init e w = (Inr u, w0) \<Longrightarrow> length argv = 2 \<Longrightarrow>
   process_csv e w0 (argv ! 1) = (Inr out, w', a) \<Longrightarrow>
   exit_status (ending (fst (main e w argv))) = 0"
  by (simp add: main_def exit_status_def)

text \<open>
  Claim C9. Started without a file name, the program prints the usage line and ends with
  status 1 before anything else happens. \<^verbatim>\<open>simple_upload.py\<close> does so.
  \<^verbatim>\<open>dropbox_to_github.py\<close> first runs its initialisation against the repository: when
  the repository refuses the first call, the run ends in an uncaught exception and prints
  no usage line; when the repository answers, the usage line is printed after
  \<^verbatim>\<open>images/.gitkeep\<close> and the \<^verbatim>\<open>gh-pages\<close> branch have been created.
\<close>

theorem main_usage_preempted:
  "fst (main (test_env (answering Transport_failure) (always Refused) no_table no_frame)
         empty_world [''dropbox_to_github.py'']) =
     \<lparr>ending = Uncaught GithubException, stdout = [], written = None\<rparr> \<and>
   fst (simple_main (test_env (answering Transport_failure) (always Refused) no_table no_frame)
         empty_world [''simple_upload.py'']) =
     \<lparr>ending = Exit 1,
      stdout = [''Usage: python simple_upload.py your_shopify_import.csv''],
      written = None\<rparr> \<and>
   fst (main (test_env (answering Transport_failure) (always Healthy) no_table no_frame)
         empty_world [''dropbox_to_github.py'']) =
     \<lparr>ending = Exit 1,
      stdout = [''Usage: python dropbox_to_github.py your_shopify_import.csv''],
      written = None\<rparr> \<and>
   map fst (files (fst (snd (main (test_env (answering Transport_failure) (always Healthy) no_table no_frame)
         empty_world [''dropbox_to_github.py''])))) = [''images/.gitkeep''] \<and>
   gh_pages (fst (snd (main (test_env (answering Transport_failure) (always Healthy) no_table no_frame)
         empty_world [''dropbox_to_github.py''])))"
  by code_simp

end
